theory Spec2Isabelle
  imports Main "HOL-Library.Sublist"
begin

section \<open>Data model: cells, frames, the object store\<close>

text \<open>
  The cleaning engine is \<^verbatim>\<open>clean_data(df, cleaning_options)\<close> of \<^verbatim>\<open>app.py\<close>
  (lines 56 to 84). It works on a pandas DataFrame, with the operations as
  pandas 1 and 2 define them. A cell of an object column
  is Python's \<^verbatim>\<open>None\<close>, a \<^verbatim>\<open>str\<close> or an \<^verbatim>\<open>int\<close>; floating point
  and boolean cells are outside this model. Two cells are duplicates of each
  other for pandas exactly when they are equal here (two \<^verbatim>\<open>None\<close> are).
\<close>

datatype cell = Null | Text string | Num int

text \<open>
  A DataFrame is kept row by row: the column labels in order, and one cell
  list per row. The frames the engine receives have distinct column labels and
  rows as long as the label list (\<open>wf_frame\<close>). The row index labels of pandas
  are not kept: nothing in \<^verbatim>\<open>clean_data\<close> reads them.
\<close>

record dataframe =
  columns :: "string list"
  rows :: "cell list list"

definition wf_frame :: "dataframe \<Rightarrow> bool" where
  "wf_frame d = (distinct (columns d) \<and> list_all (\<lambda>row. length row = length (columns d)) (rows d))"

text \<open>\<^verbatim>\<open>pd.DataFrame()\<close>: no columns and no rows.\<close>

definition empty_frame :: dataframe where
  "empty_frame = \<lparr>columns = [], rows = []\<rparr>"

text \<open>
  The exceptions the body of \<^verbatim>\<open>clean_data\<close> can meet. \<open>DisplayError\<close> stands
  for whatever \<^verbatim>\<open>st.dataframe\<close> raises on a frame it cannot show.
\<close>

datatype error = KeyError string | ValueError | DisplayError

section \<open>Pandas operations used by the engine\<close>

fun index_of :: "string \<Rightarrow> string list \<Rightarrow> nat option" where
  "index_of c [] = None"
| "index_of c (x # xs) =
     (if x = c then Some 0 else (case index_of c xs of None \<Rightarrow> None | Some i \<Rightarrow> Some (Suc i)))"

text \<open>\<^verbatim>\<open>df[column]\<close>: the cells of one column, or \<^verbatim>\<open>KeyError\<close>.\<close>

definition getitem :: "dataframe \<Rightarrow> string \<Rightarrow> error + cell list" where
  "getitem d column =
     (case index_of column (columns d) of
        None \<Rightarrow> Inl (KeyError column)
      | Some i \<Rightarrow> Inr (map (\<lambda>row. row ! i) (rows d)))"

text \<open>\<^verbatim>\<open>df[mask]\<close> with a boolean Series: a new frame of the rows whose flag is set.\<close>

definition getitem_mask :: "dataframe \<Rightarrow> bool list \<Rightarrow> dataframe" where
  "getitem_mask d flags = d\<lparr>rows := map fst (filter snd (zip (rows d) flags))\<rparr>"

text \<open>\<^verbatim>\<open>df.empty\<close>: some axis has length zero.\<close>

definition frame_empty :: "dataframe \<Rightarrow> bool" where
  "frame_empty d = (columns d = [] \<or> rows d = [])"

text \<open>
  \<^verbatim>\<open>Series.duplicated(keep='first')\<close>: a value is flagged when it occurred
  earlier in the column.
\<close>

fun duplicated :: "cell list \<Rightarrow> cell list \<Rightarrow> bool list" where
  "duplicated seen [] = []"
| "duplicated seen (k # ks) = (k \<in> set seen) # duplicated (k # seen) ks"

text \<open>
  \<^verbatim>\<open>df.drop_duplicates(subset=[column], keep='first')\<close>. Pandas returns a copy
  of an empty frame before it looks at \<^verbatim>\<open>subset\<close>; otherwise a label that is
  not a column raises \<^verbatim>\<open>KeyError\<close>, and the rows flagged by \<open>duplicated\<close> go.
\<close>

definition drop_duplicates :: "dataframe \<Rightarrow> string \<Rightarrow> error + dataframe" where
  "drop_duplicates d column =
     (if frame_empty d then Inr d
      else (case getitem d column of
              Inl e \<Rightarrow> Inl e
            | Inr keys \<Rightarrow> Inr (getitem_mask d (map Not (duplicated [] keys)))))"

text \<open>\<^verbatim>\<open>Series.notnull()\<close>: only a missing value is null.\<close>

definition notnull :: "cell \<Rightarrow> bool" where
  "notnull v = (v \<noteq> Null)"

text \<open>
  Python's \<^verbatim>\<open>str\<close> of a cell, which \<^verbatim>\<open>astype(str)\<close> applies to every element
  of an object column: a string is itself, an integer its decimal numeral, and
  \<^verbatim>\<open>None\<close> the four characters \<^verbatim>\<open>None\<close>.
\<close>

definition digit_char :: "nat \<Rightarrow> char" where
  "digit_char n = ''0123456789'' ! (n mod 10)"

function str_nat :: "nat \<Rightarrow> string" where
  "str_nat n = (if n < 10 then [digit_char n] else str_nat (n div 10) @ [digit_char n])"
  by pat_completeness auto
termination
  by (relation "measure (\<lambda>n. n)") auto

definition str_int :: "int \<Rightarrow> string" where
  "str_int i = (if i < 0 then CHR ''-'' # str_nat (nat (- i)) else str_nat (nat i))"

fun astype_str :: "cell \<Rightarrow> string" where
  "astype_str Null = ''None''"
| "astype_str (Text s) = s"
| "astype_str (Num i) = str_int i"

text \<open>
  \<^verbatim>\<open>str.strip()\<close> removes leading and trailing whitespace. The strings of the
  model are ASCII; \<open>isspace\<close> lists the ASCII characters Python counts as space.
\<close>

definition isspace :: "char \<Rightarrow> bool" where
  "isspace c = (of_char c \<in> {9, 10, 11, 12, 13, 28, 29, 30, 31, 32 :: nat})"

definition strip :: "string \<Rightarrow> string" where
  "strip s = rev (dropWhile isspace (rev (dropWhile isspace s)))"

text \<open>
  \<^verbatim>\<open>pd.to_numeric(s, errors='coerce').notnull()\<close> for one cell. A missing value
  becomes NaN, an integer stays a number, and a string is parsed. The grammar of
  the strings pandas parses to a number is not part of this repository: it is
  the parameter \<open>numeric_text\<close> of the engine, and every general result below
  holds for each such recogniser.
\<close>

fun to_numeric_notnull :: "(string \<Rightarrow> bool) \<Rightarrow> cell \<Rightarrow> bool" where
  "to_numeric_notnull numeric_text Null = False"
| "to_numeric_notnull numeric_text (Text s) = numeric_text s"
| "to_numeric_notnull numeric_text (Num i) = True"

text \<open>
  A recogniser for the concrete examples: non-empty strings of decimal digits,
  which pandas parses, and which excludes the strings with a letter used below.
\<close>

definition digits_text :: "string \<Rightarrow> bool" where
  "digits_text s = (s \<noteq> [] \<and> list_all (\<lambda>c. c \<in> set ''0123456789'') s)"

text \<open>
  A display function for the concrete examples. \<^verbatim>\<open>st.dataframe\<close> hands the
  frame to Arrow, and a Python integer that does not fit a signed 64 bit
  integer raises \<^verbatim>\<open>OverflowError\<close> there; strings, \<^verbatim>\<open>None\<close> and the integers in
  that range are shown. The examples below hold integers far inside or far
  outside the range.
\<close>

fun cell_shown :: "cell \<Rightarrow> bool" where
  "cell_shown Null = True"
| "cell_shown (Text s) = True"
| "cell_shown (Num i) = (- (2 ^ 63) \<le> i \<and> i < 2 ^ 63)"

definition frame_shown :: "dataframe \<Rightarrow> bool" where
  "frame_shown d = list_all (list_all cell_shown) (rows d)"

text \<open>
  \<^verbatim>\<open>df[column] = values\<close> with a list-like of values: an existing column is
  overwritten in place, a new label is appended as the last column. Pandas
  raises \<^verbatim>\<open>ValueError\<close> when the number of values is not the number of rows.
\<close>

definition setitem :: "dataframe \<Rightarrow> string \<Rightarrow> cell list \<Rightarrow> error + dataframe" where
  "setitem d column vals =
     (if length vals \<noteq> length (rows d) then Inl ValueError
      else (case index_of column (columns d) of
              Some i \<Rightarrow> Inr (d\<lparr>rows := map (\<lambda>(row, v). row[i := v]) (zip (rows d) vals)\<rparr>)
            | None \<Rightarrow> Inr \<lparr>columns = columns d @ [column],
                           rows = map (\<lambda>(row, v). row @ [v]) (zip (rows d) vals)\<rparr>))"

text \<open>\<^verbatim>\<open>range(1, n + 1)\<close> as cells.\<close>

definition range1 :: "nat \<Rightarrow> cell list" where
  "range1 n = map (\<lambda>k. Num (int k)) [1..<Suc n]"

section \<open>The right-hand sides of the five rules\<close>

text \<open>Line 66: \<^verbatim>\<open>df[df[column].notnull()]\<close>.\<close>

definition remove_nulls :: "dataframe \<Rightarrow> string \<Rightarrow> error + dataframe" where
  "remove_nulls d column =
     (case getitem d column of
        Inl e \<Rightarrow> Inl e
      | Inr s \<Rightarrow> Inr (getitem_mask d (map notnull s)))"

text \<open>Line 69: \<^verbatim>\<open>df[df[column].astype(str).str.strip() != '']\<close>.\<close>

definition validate_string :: "dataframe \<Rightarrow> string \<Rightarrow> error + dataframe" where
  "validate_string d column =
     (case getitem d column of
        Inl e \<Rightarrow> Inl e
      | Inr s \<Rightarrow> Inr (getitem_mask d (map (\<lambda>v. strip (astype_str v) \<noteq> []) s)))"

text \<open>Line 72: \<^verbatim>\<open>df[df[column].astype(str).str.len() >= 3]\<close>.\<close>

definition validate_length :: "dataframe \<Rightarrow> string \<Rightarrow> error + dataframe" where
  "validate_length d column =
     (case getitem d column of
        Inl e \<Rightarrow> Inl e
      | Inr s \<Rightarrow> Inr (getitem_mask d (map (\<lambda>v. 3 \<le> length (astype_str v)) s)))"

text \<open>Line 75: \<^verbatim>\<open>df[pd.to_numeric(df[column], errors='coerce').notnull()]\<close>.\<close>

definition validate_numeric :: "(string \<Rightarrow> bool) \<Rightarrow> dataframe \<Rightarrow> string \<Rightarrow> error + dataframe" where
  "validate_numeric numeric_text d column =
     (case getitem d column of
        Inl e \<Rightarrow> Inl e
      | Inr s \<Rightarrow> Inr (getitem_mask d (map (to_numeric_notnull numeric_text) s)))"

section \<open>The engine\<close>

text \<open>
  Python variables hold references. The store is the list of the frames
  allocated so far, a reference is a position in it, and \<open>df\<close> is the frame the
  local variable \<^verbatim>\<open>df\<close> of \<^verbatim>\<open>clean_data\<close> refers to at the moment: on entry it
  is the caller's frame.
\<close>

record env =
  heap :: "dataframe list"
  df :: nat

text \<open>
  \<^verbatim>\<open>df = <expression over df>\<close>: the expression builds a new frame, which is
  allocated at the end of the store, and \<^verbatim>\<open>df\<close> is rebound to it. The frame
  \<^verbatim>\<open>df\<close> referred to before stays as it was. An exception leaves the block.
\<close>

definition rebind :: "(dataframe \<Rightarrow> error + dataframe) \<Rightarrow> env \<Rightarrow> error + env" where
  "rebind rhs e =
     (case rhs (heap e ! df e) of
        Inl err \<Rightarrow> Inl err
      | Inr d \<Rightarrow> Inr \<lparr>heap = heap e @ [d], df = length (heap e)\<rparr>)"

text \<open>\<^verbatim>\<open>if rule in options: df = ...\<close>, one of the five statements of the loop body.\<close>

definition when_in :: "string \<Rightarrow> string list \<Rightarrow> (dataframe \<Rightarrow> error + dataframe) \<Rightarrow> env \<Rightarrow> error + env" where
  "when_in rule options rhs e = (if rule \<in> set options then rebind rhs e else Inr e)"

text \<open>
  Lines 62 to 76, the body of the loop for one \<^verbatim>\<open>(column, options)\<close> item. The
  calls of \<^verbatim>\<open>st.write\<close> only narrate and are left out.
\<close>

definition loop_body :: "(string \<Rightarrow> bool) \<Rightarrow> string \<Rightarrow> string list \<Rightarrow> env \<Rightarrow> error + env" where
  "loop_body numeric_text column options e =
     (case when_in ''drop_duplicates'' options (\<lambda>d. drop_duplicates d column) e of
        Inl err \<Rightarrow> Inl err
      | Inr e1 \<Rightarrow>
     (case when_in ''remove_nulls'' options (\<lambda>d. remove_nulls d column) e1 of
        Inl err \<Rightarrow> Inl err
      | Inr e2 \<Rightarrow>
     (case when_in ''validate_string'' options (\<lambda>d. validate_string d column) e2 of
        Inl err \<Rightarrow> Inl err
      | Inr e3 \<Rightarrow>
     (case when_in ''validate_length'' options (\<lambda>d. validate_length d column) e3 of
        Inl err \<Rightarrow> Inl err
      | Inr e4 \<Rightarrow>
        when_in ''validate_numeric'' options (\<lambda>d. validate_numeric numeric_text d column) e4))))"

text \<open>
  Line 61, \<^verbatim>\<open>for column, options in cleaning_options.items()\<close>: the dict is
  the list of its items in iteration order.
\<close>

fun clean_loop :: "(string \<Rightarrow> bool) \<Rightarrow> (string \<times> string list) list \<Rightarrow> env \<Rightarrow> error + env" where
  "clean_loop numeric_text [] e = Inr e"
| "clean_loop numeric_text ((column, options) # items) e =
     (case loop_body numeric_text column options e of
        Inl err \<Rightarrow> Inl err
      | Inr e' \<Rightarrow> clean_loop numeric_text items e')"

text \<open>
  Line 78, \<^verbatim>\<open>df['id'] = range(1, len(df) + 1)\<close>: the frame \<^verbatim>\<open>df\<close> refers to is
  changed where it is, in the store. On a frame that a rule has built pandas
  may print a warning here; a warning is no exception.
\<close>

definition assign_id :: "env \<Rightarrow> error + env" where
  "assign_id e =
     (case setitem (heap e ! df e) ''id'' (range1 (length (rows (heap e ! df e)))) of
        Inl err \<Rightarrow> Inl err
      | Inr d \<Rightarrow> Inr (e\<lparr>heap := (heap e)[df e := d]\<rparr>))"

text \<open>
  Lines 57 to 81, the \<^verbatim>\<open>try\<close> block: \<^verbatim>\<open>st.dataframe(df)\<close> on the frame
  passed in (line 59), the loop, the \<^verbatim>\<open>id\<close> column, \<^verbatim>\<open>st.dataframe(df)\<close> on
  the outcome (line 80), and \<^verbatim>\<open>return df\<close>. Streamlit is not part of this
  repository: \<open>st_dataframe d\<close> says that \<^verbatim>\<open>st.dataframe\<close> shows the frame \<open>d\<close>
  and returns, and where it does not hold the call raises inside the block. It
  is a parameter of the engine, as \<open>numeric_text\<close> is. The calls of
  \<^verbatim>\<open>st.write\<close> print a string and are left out.

  An exception comes with the caller's store at that moment. The statements of
  the loop change no frame, so up to line 78 that store is \<open>h\<close>. Line 78 may
  have changed the caller's frame, so after an exception at line 80 the
  caller's frames are read from the store of that moment. The frames the block
  had allocated are unreachable after an exception and are dropped.
\<close>

definition clean_try :: "(string \<Rightarrow> bool) \<Rightarrow> (dataframe \<Rightarrow> bool) \<Rightarrow> dataframe list \<Rightarrow> nat \<Rightarrow> (string \<times> string list) list \<Rightarrow> (error \<times> dataframe list) + env" where
  "clean_try numeric_text st_dataframe h r cleaning_options =
     (if \<not> st_dataframe (h ! r) then Inl (DisplayError, h)
      else (case clean_loop numeric_text cleaning_options \<lparr>heap = h, df = r\<rparr> of
              Inl err \<Rightarrow> Inl (err, h)
            | Inr e \<Rightarrow>
                (case assign_id e of
                   Inl err \<Rightarrow> Inl (err, h)
                 | Inr e' \<Rightarrow>
                     if \<not> st_dataframe (heap e' ! df e')
                     then Inl (DisplayError, take (length h) (heap e'))
                     else Inr e')))"

text \<open>
  \<^verbatim>\<open>clean_data(df, cleaning_options)\<close>, called with the store \<open>h\<close> and the
  reference \<open>r\<close> of the caller's frame. It returns the store and the reference of
  the frame it returns. The \<^verbatim>\<open>except\<close> clause (lines 82 to 84) returns a new
  \<^verbatim>\<open>pd.DataFrame()\<close>.
\<close>

definition clean_data :: "(string \<Rightarrow> bool) \<Rightarrow> (dataframe \<Rightarrow> bool) \<Rightarrow> dataframe list \<Rightarrow> nat \<Rightarrow> (string \<times> string list) list \<Rightarrow> env" where
  "clean_data numeric_text st_dataframe h r cleaning_options =
     (case clean_try numeric_text st_dataframe h r cleaning_options of
        Inl (err, s) \<Rightarrow> \<lparr>heap = s @ [empty_frame], df = length s\<rparr>
      | Inr e \<Rightarrow> e)"

text \<open>The frame a call returned: what its reference holds in its store.\<close>

definition returned :: "env \<Rightarrow> dataframe" where
  "returned e = heap e ! df e"

section \<open>Notions used to state the properties\<close>

text \<open>
  The order in which the loop body looks for the five rules, the right-hand
  side each rule stands for, and the statements \<^verbatim>\<open>df = ...\<close> of a list of
  rules run one after the other, each on the frame the one before has left.
\<close>

definition rule_order :: "string list" where
  "rule_order = [''drop_duplicates'', ''remove_nulls'', ''validate_string'',
                 ''validate_length'', ''validate_numeric'']"

definition rule_rhs :: "(string \<Rightarrow> bool) \<Rightarrow> string \<Rightarrow> string \<Rightarrow> dataframe \<Rightarrow> error + dataframe" where
  "rule_rhs numeric_text column rule d =
     (if rule = ''drop_duplicates'' then drop_duplicates d column
      else if rule = ''remove_nulls'' then remove_nulls d column
      else if rule = ''validate_string'' then validate_string d column
      else if rule = ''validate_length'' then validate_length d column
      else validate_numeric numeric_text d column)"

fun rebind_each :: "(string \<Rightarrow> bool) \<Rightarrow> string \<Rightarrow> string list \<Rightarrow> env \<Rightarrow> error + env" where
  "rebind_each numeric_text column [] e = Inr e"
| "rebind_each numeric_text column (rule # rules) e =
     (case rebind (rule_rhs numeric_text column rule) e of
        Inl err \<Rightarrow> Inl err
      | Inr e' \<Rightarrow> rebind_each numeric_text column rules e')"

text \<open>
  \<open>firsts k seen xs\<close> are the elements of \<open>xs\<close> whose key \<open>k\<close> is not in \<open>seen\<close>
  and did not occur earlier in \<open>xs\<close>: the first occurrence of each key, in order.
\<close>

fun firsts :: "('a \<Rightarrow> cell) \<Rightarrow> cell list \<Rightarrow> 'a list \<Rightarrow> 'a list" where
  "firsts k seen [] = []"
| "firsts k seen (x # xs) =
     (if k x \<in> set seen then firsts k seen xs else x # firsts k (k x # seen) xs)"

text \<open>
  \<open>shrinks d d'\<close>: \<open>d'\<close> has the columns of \<open>d\<close>, and its rows are rows of \<open>d\<close>,
  whole and in the order they have in \<open>d\<close>.
\<close>

definition shrinks :: "dataframe \<Rightarrow> dataframe \<Rightarrow> bool" where
  "shrinks d d' = (columns d' = columns d \<and> subseq (rows d') (rows d))"

text \<open>
  \<open>follows e e'\<close>: what the statements of the loop do to the store. Frames are
  only added, \<open>df\<close> stays a reference into the store, it is either untouched
  or refers to a frame allocated since, and the frame it refers to has shrunk.
\<close>

definition follows :: "env \<Rightarrow> env \<Rightarrow> bool" where
  "follows e e' =
     (prefix (heap e) (heap e') \<and> df e' < length (heap e') \<and>
      (e' = e \<or> length (heap e) \<le> df e') \<and>
      shrinks (heap e ! df e) (heap e' ! df e'))"

text \<open>
  A frame without one of its columns (\<^verbatim>\<open>df.drop(columns=[c], errors='ignore')\<close>),
  to compare frames apart from the \<^verbatim>\<open>id\<close> column.
\<close>

definition drop_column :: "string \<Rightarrow> dataframe \<Rightarrow> dataframe" where
  "drop_column c d =
     (case index_of c (columns d) of
        None \<Rightarrow> d
      | Some i \<Rightarrow> \<lparr>columns = take i (columns d) @ drop (Suc i) (columns d),
                   rows = map (\<lambda>row. take i row @ drop (Suc i) row) (rows d)\<rparr>)"

section \<open>Lemmas on the pandas operations\<close>

lemma index_of_Some: "index_of c cs = Some i \<Longrightarrow> i < length cs \<and> cs ! i = c"
  by (induction cs arbitrary: i) (auto split: if_splits option.splits)

lemma index_of_None: "(index_of c cs = None) = (c \<notin> set cs)"
  by (induction cs) (auto split: option.splits)

lemma index_of_append_new: "c \<notin> set cs \<Longrightarrow> index_of c (cs @ [c]) = Some (length cs)"
  by (induction cs) auto

lemma mask_subseq: "subseq (map fst (filter snd (zip xs fs))) xs"
proof (induction xs arbitrary: fs)
  case Nil
  show ?case by simp
next
  case (Cons x xs)
  show ?case
  proof (cases fs)
    case Nil
    then show ?thesis by simp
  next
    case (Cons f fs')
    with Cons.IH [of fs'] show ?thesis by (cases f) auto
  qed
qed

lemma duplicated_set: "set s = set s' \<Longrightarrow> duplicated s ks = duplicated s' ks"
  by (induction ks arbitrary: s s') auto

lemma mask_firsts:
  "map fst (filter snd (zip xs (map Not (duplicated seen (map k xs))))) = firsts k seen xs"
proof (induction xs arbitrary: seen)
  case Nil
  show ?case by simp
next
  case (Cons x xs)
  show ?case
  proof (cases "k x \<in> set seen")
    case True
    then have "set (k x # seen) = set seen" by auto
    then have "duplicated (k x # seen) (map k xs) = duplicated seen (map k xs)"
      by (rule duplicated_set)
    with True Cons show ?thesis by simp
  next
    case False
    with Cons show ?thesis by simp
  qed
qed

lemma firsts_idem: "firsts k seen (firsts k seen xs) = firsts k seen xs"
  by (induction xs arbitrary: seen) auto

lemma firsts_keys: "k ` set (firsts k seen xs) = k ` set xs - set seen"
  by (induction xs arbitrary: seen) auto

lemma firsts_distinct: "distinct (map k (firsts k seen xs))"
proof (induction xs arbitrary: seen)
  case Nil
  show ?case by simp
next
  case (Cons x xs)
  have "k x \<notin> k ` set (firsts k (k x # seen) xs)"
    by (simp add: firsts_keys)
  with Cons show ?case by auto
qed

lemma shrinks_refl: "shrinks d d"
  by (simp add: shrinks_def)

lemma shrinks_trans: "shrinks a b \<Longrightarrow> shrinks b c \<Longrightarrow> shrinks a c"
  unfolding shrinks_def using subseq_order.trans by auto

lemma getitem_mask_shrinks: "shrinks d (getitem_mask d flags)"
  by (simp add: shrinks_def getitem_mask_def mask_subseq)

lemma drop_duplicates_shrinks: "drop_duplicates d c = Inr d' \<Longrightarrow> shrinks d d'"
  by (auto simp: drop_duplicates_def getitem_mask_shrinks shrinks_refl split: if_splits sum.splits)

lemma remove_nulls_shrinks: "remove_nulls d c = Inr d' \<Longrightarrow> shrinks d d'"
  by (auto simp: remove_nulls_def getitem_mask_shrinks split: sum.splits)

lemma validate_string_shrinks: "validate_string d c = Inr d' \<Longrightarrow> shrinks d d'"
  by (auto simp: validate_string_def getitem_mask_shrinks split: sum.splits)

lemma validate_length_shrinks: "validate_length d c = Inr d' \<Longrightarrow> shrinks d d'"
  by (auto simp: validate_length_def getitem_mask_shrinks split: sum.splits)

lemma validate_numeric_shrinks: "validate_numeric nt d c = Inr d' \<Longrightarrow> shrinks d d'"
  by (auto simp: validate_numeric_def getitem_mask_shrinks split: sum.splits)

section \<open>Lemmas on the store\<close>

lemma follows_refl: "df e < length (heap e) \<Longrightarrow> follows e e"
  by (simp add: follows_def shrinks_refl)

lemma follows_trans:
  assumes "follows a b" "follows b c"
  shows "follows a c"
proof -
  from assms have p: "prefix (heap a) (heap c)"
    unfolding follows_def by (meson prefix_order.trans)
  from assms have len: "length (heap a) \<le> length (heap b)"
    unfolding follows_def by (simp add: prefix_length_le)
  from assms have s: "shrinks (heap a ! df a) (heap c ! df c)"
    unfolding follows_def using shrinks_trans by blast
  from assms len have "c = a \<or> length (heap a) \<le> df c"
    unfolding follows_def by auto
  with p s assms show ?thesis unfolding follows_def by simp
qed

lemma rebind_follows:
  assumes "df e < length (heap e)" "rebind rhs e = Inr e'"
    and "\<And>d d'. rhs d = Inr d' \<Longrightarrow> shrinks d d'"
  shows "follows e e'"
  using assms
  by (auto simp: rebind_def follows_def nth_append split: sum.splits)

lemma when_in_follows:
  assumes "df e < length (heap e)" "when_in rule options rhs e = Inr e'"
    and "\<And>d d'. rhs d = Inr d' \<Longrightarrow> shrinks d d'"
  shows "follows e e'"
  using assms rebind_follows [of e rhs e'] follows_refl [of e]
  by (auto simp: when_in_def split: if_splits)

lemma follows_valid: "follows e e' \<Longrightarrow> df e' < length (heap e')"
  by (simp add: follows_def)

lemma loop_body_follows:
  assumes "df e < length (heap e)" "loop_body nt c opts e = Inr e'"
  shows "follows e e'"
proof -
  from assms(2) obtain e1 e2 e3 e4 where
    s1: "when_in ''drop_duplicates'' opts (\<lambda>d. drop_duplicates d c) e = Inr e1" and
    s2: "when_in ''remove_nulls'' opts (\<lambda>d. remove_nulls d c) e1 = Inr e2" and
    s3: "when_in ''validate_string'' opts (\<lambda>d. validate_string d c) e2 = Inr e3" and
    s4: "when_in ''validate_length'' opts (\<lambda>d. validate_length d c) e3 = Inr e4" and
    s5: "when_in ''validate_numeric'' opts (\<lambda>d. validate_numeric nt d c) e4 = Inr e'"
    unfolding loop_body_def by (auto split: sum.splits)
  have f1: "follows e e1"
    using when_in_follows [OF assms(1) s1] drop_duplicates_shrinks by blast
  have f2: "follows e1 e2"
    using when_in_follows [OF follows_valid [OF f1] s2] remove_nulls_shrinks by blast
  have f3: "follows e2 e3"
    using when_in_follows [OF follows_valid [OF f2] s3] validate_string_shrinks by blast
  have f4: "follows e3 e4"
    using when_in_follows [OF follows_valid [OF f3] s4] validate_length_shrinks by blast
  have f5: "follows e4 e'"
    using when_in_follows [OF follows_valid [OF f4] s5] validate_numeric_shrinks by blast
  show ?thesis
    using f1 f2 f3 f4 f5 follows_trans by blast
qed

lemma clean_loop_follows:
  "df e < length (heap e) \<Longrightarrow> clean_loop nt items e = Inr e' \<Longrightarrow> follows e e'"
proof (induction items arbitrary: e)
  case Nil
  then show ?case by (simp add: follows_refl)
next
  case (Cons item items)
  obtain c opts where item: "item = (c, opts)" by (cases item)
  from Cons.prems item obtain e1 where
    b: "loop_body nt c opts e = Inr e1" and l: "clean_loop nt items e1 = Inr e'"
    by (auto split: sum.splits)
  have f1: "follows e e1" using loop_body_follows [OF Cons.prems(1) b] .
  have "follows e1 e'" using Cons.IH [OF follows_valid [OF f1] l] .
  with f1 show ?case by (rule follows_trans)
qed

lemma drop_duplicates_rows:
  assumes "\<not> frame_empty d" "index_of column (columns d) = Some i"
  shows "drop_duplicates d column = Inr (d\<lparr>rows := firsts (\<lambda>row. row ! i) [] (rows d)\<rparr>)"
  using assms by (simp add: drop_duplicates_def getitem_def getitem_mask_def mask_firsts)

lemma drop_duplicates_absent:
  assumes "\<not> frame_empty d" "index_of column (columns d) = None"
  shows "drop_duplicates d column = Inl (KeyError column)"
  using assms by (simp add: drop_duplicates_def getitem_def)

lemma mask_filter1: "map fst (filter snd (zip xs (map p xs))) = filter p xs"
  by (induction xs) auto

lemma validate_length_rows:
  assumes "index_of column (columns d) = Some i"
  shows "validate_length d column =
           Inr (d\<lparr>rows := filter (\<lambda>row. 3 \<le> length (astype_str (row ! i))) (rows d)\<rparr>)"
  using assms by (simp add: validate_length_def getitem_def getitem_mask_def mask_filter1 o_def)

lemma when_in_set:
  "set opts = set opts' \<Longrightarrow> when_in rule opts = when_in rule opts'"
  by (intro ext) (simp add: when_in_def)

lemma loop_body_set:
  assumes "set opts = set opts'"
  shows "loop_body nt c opts e = loop_body nt c opts' e"
  unfolding loop_body_def when_in_set [OF assms] by (rule refl)

lemma clean_loop_append:
  "clean_loop nt (R1 @ R2) e =
     (case clean_loop nt R1 e of Inl err \<Rightarrow> Inl err | Inr e' \<Rightarrow> clean_loop nt R2 e')"
  by (induction R1 arbitrary: e) (auto split: sum.splits)

lemma clean_loop_fails_at:
  "clean_loop nt R e = Inl err \<Longrightarrow>
     \<exists>R1 c opts R2 e1. R = R1 @ (c, opts) # R2 \<and> clean_loop nt R1 e = Inr e1 \<and>
        loop_body nt c opts e1 = Inl err"
proof (induction R arbitrary: e)
  case Nil
  then show ?case by simp
next
  case (Cons item R)
  obtain c opts where item: "item = (c, opts)" by (cases item)
  show ?case
  proof (cases "loop_body nt c opts e")
    case (Inl err')
    with Cons.prems item have "err' = err" by simp
    with Inl item have "item # R = [] @ (c, opts) # R \<and> clean_loop nt [] e = Inr e \<and>
        loop_body nt c opts e = Inl err" by simp
    then show ?thesis by blast
  next
    case (Inr e1)
    with Cons.prems item have "clean_loop nt R e1 = Inl err" by simp
    from Cons.IH [OF this] obtain R1 c' opts' R2 e2 where
      d: "R = R1 @ (c', opts') # R2" "clean_loop nt R1 e1 = Inr e2"
        "loop_body nt c' opts' e2 = Inl err" by blast
    from d Inr item have "item # R = (item # R1) @ (c', opts') # R2 \<and>
        clean_loop nt (item # R1) e = Inr e2 \<and> loop_body nt c' opts' e2 = Inl err" by simp
    then show ?thesis by blast
  qed
qed

lemma clean_loop_fails_from:
  assumes "clean_loop nt R1 e = Inr e1" "loop_body nt c opts e1 = Inl err"
  shows "clean_loop nt (R1 @ (c, opts) # R2) e = Inl err"
  using assms by (simp add: clean_loop_append)

lemma length_range1: "length (range1 n) = n"
  by (simp add: range1_def)

lemma setitem_columns:
  assumes "length vals = length (rows d)"
  shows "\<exists>d'. setitem d c vals = Inr d' \<and> c \<in> set (columns d') \<and>
           length (rows d') = length (rows d)"
proof (cases "index_of c (columns d)")
  case None
  with assms show ?thesis by (simp add: setitem_def)
next
  case (Some i)
  with index_of_Some [OF Some] assms show ?thesis
    by (auto simp: setitem_def)
qed

lemma clean_loop_set:
  assumes "list_all2 (\<lambda>a b. fst a = fst b \<and> set (snd a) = set (snd b)) R R'"
  shows "clean_loop nt R e = clean_loop nt R' e"
  using assms
proof (induction R R' arbitrary: e rule: list_all2_induct)
  case Nil
  show ?case by simp
next
  case (Cons a R b R')
  obtain c opts where a: "a = (c, opts)" by (cases a)
  obtain c' opts' where b: "b = (c', opts')" by (cases b)
  from Cons.hyps a b have "c' = c" "set opts = set opts'" by simp_all
  with a b Cons.IH loop_body_set [of opts opts' nt c e] show ?case
    by (simp split: sum.splits)
qed

lemma follows_columns: "follows e e' \<Longrightarrow> columns (heap e' ! df e') = columns (heap e ! df e)"
  by (simp add: follows_def shrinks_def)

lemma follows_input:
  assumes "follows e e'" "r < length (heap e)"
  shows "heap e' ! r = heap e ! r"
  using assms by (auto simp: follows_def prefix_def nth_append)

lemma rebind_absent:
  assumes "c \<notin> set (columns (heap e ! df e))"
    and "rhs = (\<lambda>d. remove_nulls d c) \<or> rhs = (\<lambda>d. validate_string d c) \<or>
         rhs = (\<lambda>d. validate_length d c) \<or> rhs = (\<lambda>d. validate_numeric nt d c)"
  shows "rebind rhs e = Inl (KeyError c)"
proof -
  from assms(1) have "getitem (heap e ! df e) c = Inl (KeyError c)"
    by (simp add: getitem_def index_of_None [symmetric])
  with assms(2) show ?thesis
    by (auto simp: rebind_def remove_nulls_def validate_string_def validate_length_def
        validate_numeric_def)
qed

lemma loop_body_absent:
  assumes v: "df e < length (heap e)"
    and c: "c \<notin> set (columns (heap e ! df e))"
    and ok: "loop_body nt c opts e = Inr e'"
  shows "set opts \<inter> {''remove_nulls'', ''validate_string'', ''validate_length'',
           ''validate_numeric''} = {}"
proof -
  from ok obtain e1 e2 e3 e4 where
    s1: "when_in ''drop_duplicates'' opts (\<lambda>d. drop_duplicates d c) e = Inr e1" and
    s2: "when_in ''remove_nulls'' opts (\<lambda>d. remove_nulls d c) e1 = Inr e2" and
    s3: "when_in ''validate_string'' opts (\<lambda>d. validate_string d c) e2 = Inr e3" and
    s4: "when_in ''validate_length'' opts (\<lambda>d. validate_length d c) e3 = Inr e4" and
    s5: "when_in ''validate_numeric'' opts (\<lambda>d. validate_numeric nt d c) e4 = Inr e'"
    unfolding loop_body_def by (auto split: sum.splits)
  have f1: "follows e e1"
    using when_in_follows [OF v s1] drop_duplicates_shrinks by blast
  have f2: "follows e1 e2"
    using when_in_follows [OF follows_valid [OF f1] s2] remove_nulls_shrinks by blast
  have f3: "follows e2 e3"
    using when_in_follows [OF follows_valid [OF f2] s3] validate_string_shrinks by blast
  have f4: "follows e3 e4"
    using when_in_follows [OF follows_valid [OF f3] s4] validate_length_shrinks by blast
  have c1: "c \<notin> set (columns (heap e1 ! df e1))" using c follows_columns [OF f1] by simp
  have c2: "c \<notin> set (columns (heap e2 ! df e2))" using c1 follows_columns [OF f2] by simp
  have c3: "c \<notin> set (columns (heap e3 ! df e3))" using c2 follows_columns [OF f3] by simp
  have c4: "c \<notin> set (columns (heap e4 ! df e4))" using c3 follows_columns [OF f4] by simp
  have n2: "''remove_nulls'' \<notin> set opts"
    using s2 rebind_absent [OF c1, of "\<lambda>d. remove_nulls d c" nt] by (auto simp: when_in_def)
  have n3: "''validate_string'' \<notin> set opts"
    using s3 rebind_absent [OF c2, of "\<lambda>d. validate_string d c" nt] by (auto simp: when_in_def)
  have n4: "''validate_length'' \<notin> set opts"
    using s4 rebind_absent [OF c3, of "\<lambda>d. validate_length d c" nt] by (auto simp: when_in_def)
  have n5: "''validate_numeric'' \<notin> set opts"
    using s5 rebind_absent [OF c4, of "\<lambda>d. validate_numeric nt d c" nt] by (auto simp: when_in_def)
  from n2 n3 n4 n5 show ?thesis by simp
qed

lemma clean_loop_absent:
  assumes "df e < length (heap e)" "(c, opts) \<in> set R"
    "c \<notin> set (columns (heap e ! df e))"
    "set opts \<inter> {''remove_nulls'', ''validate_string'', ''validate_length'',
           ''validate_numeric''} \<noteq> {}"
  shows "\<exists>err. clean_loop nt R e = Inl err"
  using assms
proof (induction R arbitrary: e)
  case Nil
  then show ?case by simp
next
  case (Cons item R)
  obtain c' opts' where item: "item = (c', opts')" by (cases item)
  show ?case
  proof (cases "loop_body nt c' opts' e")
    case (Inl err)
    with item show ?thesis by simp
  next
    case (Inr e1)
    have f: "follows e e1" using loop_body_follows [OF Cons.prems(1) Inr] .
    have "item \<noteq> (c, opts)"
      using loop_body_absent [OF Cons.prems(1), of c' nt opts' e1] Inr item Cons.prems(3,4)
      by auto
    with Cons.prems(2) have mem: "(c, opts) \<in> set R" by simp
    have "c \<notin> set (columns (heap e1 ! df e1))"
      using Cons.prems(3) follows_columns [OF f] by simp
    from Cons.IH [OF follows_valid [OF f] mem this Cons.prems(4)] Inr item
    show ?thesis by simp
  qed
qed

lemma shrinks_wf:
  assumes "wf_frame d" "shrinks d d'"
  shows "wf_frame d'"
proof -
  from assms(2) have "set (rows d') \<subseteq> set (rows d)"
    unfolding shrinks_def using list_emb_set [of "(=)" "rows d'" "rows d"] by auto
  with assms show ?thesis
    by (auto simp: wf_frame_def shrinks_def list_all_iff)
qed

lemma shrinks_length: "shrinks d d' \<Longrightarrow> length (rows d') \<le> length (rows d)"
  unfolding shrinks_def using list_emb_length [of "(=)" "rows d'" "rows d"] by simp

lemma rebind_present:
  assumes "c \<in> set (columns (heap e ! df e))"
    and "rhs = (\<lambda>d. drop_duplicates d c) \<or> rhs = (\<lambda>d. remove_nulls d c) \<or>
         rhs = (\<lambda>d. validate_string d c) \<or>
         rhs = (\<lambda>d. validate_length d c) \<or> rhs = (\<lambda>d. validate_numeric nt d c)"
  shows "\<exists>e'. rebind rhs e = Inr e'"
proof -
  from assms(1) obtain i where "index_of c (columns (heap e ! df e)) = Some i"
    using index_of_None [of c "columns (heap e ! df e)"] by (cases "index_of c (columns (heap e ! df e))") auto
  then have "\<exists>s. getitem (heap e ! df e) c = Inr s"
    by (simp add: getitem_def)
  with assms(2) show ?thesis
    by (auto simp: rebind_def drop_duplicates_def remove_nulls_def validate_string_def
        validate_length_def validate_numeric_def)
qed

lemma when_in_present:
  assumes "c \<in> set (columns (heap e ! df e))"
    and "rhs = (\<lambda>d. drop_duplicates d c) \<or> rhs = (\<lambda>d. remove_nulls d c) \<or>
         rhs = (\<lambda>d. validate_string d c) \<or>
         rhs = (\<lambda>d. validate_length d c) \<or> rhs = (\<lambda>d. validate_numeric nt d c)"
  shows "\<exists>e'. when_in rule opts rhs e = Inr e'"
  using rebind_present [OF assms] by (simp add: when_in_def)

lemma loop_body_present:
  assumes v: "df e < length (heap e)" and c: "c \<in> set (columns (heap e ! df e))"
  shows "\<exists>e'. loop_body nt c opts e = Inr e'"
proof -
  from when_in_present [OF c, of "\<lambda>d. drop_duplicates d c" nt] obtain e1 where
    s1: "when_in ''drop_duplicates'' opts (\<lambda>d. drop_duplicates d c) e = Inr e1" by blast
  have f1: "follows e e1"
    using when_in_follows [OF v s1] drop_duplicates_shrinks by blast
  have c1: "c \<in> set (columns (heap e1 ! df e1))" using c follows_columns [OF f1] by simp
  from when_in_present [OF c1, of "\<lambda>d. remove_nulls d c" nt] obtain e2 where
    s2: "when_in ''remove_nulls'' opts (\<lambda>d. remove_nulls d c) e1 = Inr e2" by blast
  have f2: "follows e1 e2"
    using when_in_follows [OF follows_valid [OF f1] s2] remove_nulls_shrinks by blast
  have c2: "c \<in> set (columns (heap e2 ! df e2))" using c1 follows_columns [OF f2] by simp
  from when_in_present [OF c2, of "\<lambda>d. validate_string d c" nt] obtain e3 where
    s3: "when_in ''validate_string'' opts (\<lambda>d. validate_string d c) e2 = Inr e3" by blast
  have f3: "follows e2 e3"
    using when_in_follows [OF follows_valid [OF f2] s3] validate_string_shrinks by blast
  have c3: "c \<in> set (columns (heap e3 ! df e3))" using c2 follows_columns [OF f3] by simp
  from when_in_present [OF c3, of "\<lambda>d. validate_length d c" nt] obtain e4 where
    s4: "when_in ''validate_length'' opts (\<lambda>d. validate_length d c) e3 = Inr e4" by blast
  have f4: "follows e3 e4"
    using when_in_follows [OF follows_valid [OF f3] s4] validate_length_shrinks by blast
  have c4: "c \<in> set (columns (heap e4 ! df e4))" using c3 follows_columns [OF f4] by simp
  from when_in_present [OF c4, of "\<lambda>d. validate_numeric nt d c" nt] obtain e5 where
    s5: "when_in ''validate_numeric'' opts (\<lambda>d. validate_numeric nt d c) e4 = Inr e5" by blast
  from s1 s2 s3 s4 s5 show ?thesis by (simp add: loop_body_def)
qed

lemma clean_loop_present:
  assumes "df e < length (heap e)" "fst ` set R \<subseteq> set (columns (heap e ! df e))"
  shows "\<exists>e'. clean_loop nt R e = Inr e'"
  using assms
proof (induction R arbitrary: e)
  case Nil
  show ?case by simp
next
  case (Cons item R)
  obtain c opts where item: "item = (c, opts)" by (cases item)
  with Cons.prems have c: "c \<in> set (columns (heap e ! df e))" by simp
  from loop_body_present [OF Cons.prems(1) c] obtain e1 where
    b: "loop_body nt c opts e = Inr e1" by blast
  have f: "follows e e1" using loop_body_follows [OF Cons.prems(1) b] .
  from Cons.prems(2) follows_columns [OF f]
  have "fst ` set R \<subseteq> set (columns (heap e1 ! df e1))" by simp
  from Cons.IH [OF follows_valid [OF f] this] b item show ?case by simp
qed

lemma update_column_values:
  assumes "length vals = length rs" "\<forall>row \<in> set rs. i < length row"
  shows "map (\<lambda>row. row ! i) (map (\<lambda>(row, v). row[i := v]) (zip rs vals)) = vals"
  using assms by (induction vals rs rule: list_induct2) auto

lemma append_column_values:
  assumes "length vals = length rs" "\<forall>row \<in> set rs. length row = n"
  shows "map (\<lambda>row. row ! n) (map (\<lambda>(row, v). row @ [v]) (zip rs vals)) = vals"
  using assms by (induction vals rs rule: list_induct2) auto

lemma update_column_dropped:
  assumes "length vals = length rs"
  shows "map (\<lambda>row. take i row @ drop (Suc i) row) (map (\<lambda>(row, v). row[i := v]) (zip rs vals))
           = map (\<lambda>row. take i row @ drop (Suc i) row) rs"
  using assms by (induction vals rs rule: list_induct2) auto

lemma append_column_dropped:
  assumes "length vals = length rs" "\<forall>row \<in> set rs. length row = n"
  shows "map (\<lambda>row. take n row @ drop (Suc n) row) (map (\<lambda>(row, v). row @ [v]) (zip rs vals)) = rs"
  using assms by (induction vals rs rule: list_induct2) auto

lemma setitem_wf:
  assumes w: "wf_frame d" and l: "length vals = length (rows d)"
  shows "\<exists>d'. setitem d c vals = Inr d' \<and> getitem d' c = Inr vals \<and> wf_frame d' \<and>
           length (rows d') = length (rows d) \<and> drop_column c d' = drop_column c d \<and>
           columns d' = (if c \<in> set (columns d) then columns d else columns d @ [c])"
proof (cases "index_of c (columns d)")
  case None
  then have notin: "c \<notin> set (columns d)" by (simp add: index_of_None)
  let ?d' = "\<lparr>columns = columns d @ [c], rows = map (\<lambda>(row, v). row @ [v]) (zip (rows d) vals)\<rparr>"
  from w have len: "\<forall>row \<in> set (rows d). length row = length (columns d)"
    by (simp add: wf_frame_def list_all_iff)
  have s: "setitem d c vals = Inr ?d'" using None l by (simp add: setitem_def)
  have g: "getitem ?d' c = Inr vals"
    using index_of_append_new [OF notin] append_column_values [OF l len]
    by (simp add: getitem_def)
  have wf': "wf_frame ?d'"
    using w notin l by (auto simp: wf_frame_def list_all_iff dest!: set_zip_leftD)
  have "drop_column c ?d' = d"
    using index_of_append_new [OF notin] append_column_dropped [OF l len]
    by (simp add: drop_column_def)
  moreover have "drop_column c d = d" using None by (simp add: drop_column_def)
  ultimately have dc: "drop_column c ?d' = drop_column c d" by simp
  from s g wf' dc notin l show ?thesis by simp
next
  case (Some i)
  let ?d' = "d\<lparr>rows := map (\<lambda>(row, v). row[i := v]) (zip (rows d) vals)\<rparr>"
  from index_of_Some [OF Some] have i: "i < length (columns d)" "c \<in> set (columns d)"
    by auto
  from w i have len: "\<forall>row \<in> set (rows d). i < length row"
    by (simp add: wf_frame_def list_all_iff)
  have s: "setitem d c vals = Inr ?d'" using Some l by (simp add: setitem_def)
  have g: "getitem ?d' c = Inr vals"
    using Some update_column_values [OF l len] by (simp add: getitem_def)
  have wf': "wf_frame ?d'"
    using w l by (auto simp: wf_frame_def list_all_iff dest!: set_zip_leftD)
  have dc: "drop_column c ?d' = drop_column c d"
    using Some update_column_dropped [OF l] by (simp add: drop_column_def)
  from s g wf' dc i l show ?thesis by simp
qed

lemma drop_column_shrinks:
  assumes "shrinks d d'"
  shows "shrinks (drop_column c d) (drop_column c d')"
proof (cases "index_of c (columns d)")
  case None
  with assms show ?thesis by (simp add: drop_column_def shrinks_def)
next
  case (Some i)
  with assms show ?thesis
    by (simp add: drop_column_def shrinks_def subseq_map)
qed

lemma follows_length: "follows e e' \<Longrightarrow> length (heap e) \<le> length (heap e')"
  by (simp add: follows_def prefix_length_le)

lemma follows_beyond:
  assumes "follows e e'" "df e < length (heap e)" "n \<le> df e"
  shows "n \<le> df e'"
  using assms by (auto simp: follows_def)

lemma when_in_beyond:
  assumes "when_in rule opts rhs e = Inr e'" "rule \<in> set opts"
  shows "length (heap e) \<le> df e'"
  using assms by (auto simp: when_in_def rebind_def split: sum.splits)

lemma loop_body_beyond:
  assumes v: "df e < length (heap e)"
    and ok: "loop_body nt c opts e = Inr e'"
    and some: "set opts \<inter> {''drop_duplicates'', ''remove_nulls'', ''validate_string'',
                 ''validate_length'', ''validate_numeric''} \<noteq> {}"
  shows "length (heap e) \<le> df e'"
proof -
  from ok obtain e1 e2 e3 e4 where
    s1: "when_in ''drop_duplicates'' opts (\<lambda>d. drop_duplicates d c) e = Inr e1" and
    s2: "when_in ''remove_nulls'' opts (\<lambda>d. remove_nulls d c) e1 = Inr e2" and
    s3: "when_in ''validate_string'' opts (\<lambda>d. validate_string d c) e2 = Inr e3" and
    s4: "when_in ''validate_length'' opts (\<lambda>d. validate_length d c) e3 = Inr e4" and
    s5: "when_in ''validate_numeric'' opts (\<lambda>d. validate_numeric nt d c) e4 = Inr e'"
    unfolding loop_body_def by (auto split: sum.splits)
  have f1: "follows e e1"
    using when_in_follows [OF v s1] drop_duplicates_shrinks by blast
  have f2: "follows e1 e2"
    using when_in_follows [OF follows_valid [OF f1] s2] remove_nulls_shrinks by blast
  have f3: "follows e2 e3"
    using when_in_follows [OF follows_valid [OF f2] s3] validate_string_shrinks by blast
  have f4: "follows e3 e4"
    using when_in_follows [OF follows_valid [OF f3] s4] validate_length_shrinks by blast
  have f5: "follows e4 e'"
    using when_in_follows [OF follows_valid [OF f4] s5] validate_numeric_shrinks by blast
  note v1 = follows_valid [OF f1] and v2 = follows_valid [OF f2]
    and v3 = follows_valid [OF f3] and v4 = follows_valid [OF f4]
  note l1 = follows_length [OF f1] and l2 = follows_length [OF f2]
    and l3 = follows_length [OF f3] and l4 = follows_length [OF f4]
  from some consider "''drop_duplicates'' \<in> set opts" | "''remove_nulls'' \<in> set opts"
    | "''validate_string'' \<in> set opts" | "''validate_length'' \<in> set opts"
    | "''validate_numeric'' \<in> set opts" by auto
  then show ?thesis
  proof cases
    case 1
    from when_in_beyond [OF s1 1] have "length (heap e) \<le> df e1" .
    from follows_beyond [OF f2 v1 this] have "length (heap e) \<le> df e2" .
    from follows_beyond [OF f3 v2 this] have "length (heap e) \<le> df e3" .
    from follows_beyond [OF f4 v3 this] have "length (heap e) \<le> df e4" .
    from follows_beyond [OF f5 v4 this] show ?thesis .
  next
    case 2
    from when_in_beyond [OF s2 2] l1 have "length (heap e) \<le> df e2" by simp
    from follows_beyond [OF f3 v2 this] have "length (heap e) \<le> df e3" .
    from follows_beyond [OF f4 v3 this] have "length (heap e) \<le> df e4" .
    from follows_beyond [OF f5 v4 this] show ?thesis .
  next
    case 3
    from when_in_beyond [OF s3 3] l1 l2 have "length (heap e) \<le> df e3" by simp
    from follows_beyond [OF f4 v3 this] have "length (heap e) \<le> df e4" .
    from follows_beyond [OF f5 v4 this] show ?thesis .
  next
    case 4
    from when_in_beyond [OF s4 4] l1 l2 l3 have "length (heap e) \<le> df e4" by simp
    from follows_beyond [OF f5 v4 this] show ?thesis .
  next
    case 5
    from when_in_beyond [OF s5 5] l1 l2 l3 l4 show ?thesis by simp
  qed
qed

lemma clean_loop_beyond:
  assumes "df e < length (heap e)" "clean_loop nt R e = Inr e'" "(c, opts) \<in> set R"
    "set opts \<inter> {''drop_duplicates'', ''remove_nulls'', ''validate_string'',
                 ''validate_length'', ''validate_numeric''} \<noteq> {}"
  shows "length (heap e) \<le> df e'"
  using assms
proof (induction R arbitrary: e)
  case Nil
  then show ?case by simp
next
  case (Cons item R)
  obtain c' opts' where item: "item = (c', opts')" by (cases item)
  from Cons.prems(2) item obtain e1 where
    b: "loop_body nt c' opts' e = Inr e1" and l: "clean_loop nt R e1 = Inr e'"
    by (auto split: sum.splits)
  have f1: "follows e e1" using loop_body_follows [OF Cons.prems(1) b] .
  have f2: "follows e1 e'" using clean_loop_follows [OF follows_valid [OF f1] l] .
  show ?case
  proof (cases "item = (c, opts)")
    case True
    with item b Cons.prems(1,4) have "length (heap e) \<le> df e1"
      using loop_body_beyond [of e nt c opts e1] by simp
    from follows_beyond [OF f2 follows_valid [OF f1] this] show ?thesis .
  next
    case False
    with Cons.prems(3) have "(c, opts) \<in> set R" by simp
    from Cons.IH [OF follows_valid [OF f1] l this Cons.prems(4)] follows_length [OF f1]
    show ?thesis by simp
  qed
qed

lemma assign_id_total:
  "\<exists>d. setitem (heap e ! df e) ''id'' (range1 (length (rows (heap e ! df e)))) = Inr d \<and>
       assign_id e = Inr (e\<lparr>heap := (heap e)[df e := d]\<rparr>) \<and> ''id'' \<in> set (columns d)"
  using setitem_columns [of "range1 (length (rows (heap e ! df e)))" "heap e ! df e" "''id''"]
  by (auto simp: length_range1 assign_id_def)

lemma clean_data_loop_fails:
  assumes "clean_loop nt R \<lparr>heap = h, df = r\<rparr> = Inl err"
  shows "clean_data nt sd h r R = \<lparr>heap = h @ [empty_frame], df = length h\<rparr>"
  using assms by (simp add: clean_data_def clean_try_def)

lemma clean_data_not_shown:
  assumes "\<not> sd (h ! r)"
  shows "clean_data nt sd h r R = \<lparr>heap = h @ [empty_frame], df = length h\<rparr>"
  using assms by (simp add: clean_data_def clean_try_def)

lemma caller_store_kept:
  assumes "follows \<lparr>heap = h, df = r\<rparr> e" "length h \<le> df e"
  shows "take (length h) ((heap e)[df e := d]) = h"
proof -
  from assms(1) obtain ext where "heap e = h @ ext"
    by (auto simp: follows_def prefix_def)
  with assms(2) show ?thesis by (simp add: list_update_append)
qed

lemma clean_data_loop_done:
  assumes "r < length h" "clean_loop nt R \<lparr>heap = h, df = r\<rparr> = Inr e"
    "setitem (heap e ! df e) ''id'' (range1 (length (rows (heap e ! df e)))) = Inr d"
  shows "clean_data nt sd h r R =
           (if sd (h ! r) \<and> sd d then e\<lparr>heap := (heap e)[df e := d]\<rparr>
            else if sd (h ! r)
              then \<lparr>heap = take (length h) ((heap e)[df e := d]) @ [empty_frame], df = length h\<rparr>
              else \<lparr>heap = h @ [empty_frame], df = length h\<rparr>)"
    and "df e < length (heap e)" and "length h \<le> length (heap e)"
    and "follows \<lparr>heap = h, df = r\<rparr> e"
proof -
  from assms(1) have "df \<lparr>heap = h, df = r\<rparr> < length (heap \<lparr>heap = h, df = r\<rparr>)" by simp
  from clean_loop_follows [OF this assms(2)] show f: "follows \<lparr>heap = h, df = r\<rparr> e" .
  from follows_valid [OF f] show v: "df e < length (heap e)" .
  from follows_length [OF f] show len: "length h \<le> length (heap e)" by simp
  show "clean_data nt sd h r R =
           (if sd (h ! r) \<and> sd d then e\<lparr>heap := (heap e)[df e := d]\<rparr>
            else if sd (h ! r)
              then \<lparr>heap = take (length h) ((heap e)[df e := d]) @ [empty_frame], df = length h\<rparr>
              else \<lparr>heap = h @ [empty_frame], df = length h\<rparr>)"
    using assms v len by (simp add: clean_data_def clean_try_def assign_id_def min_def)
qed

lemma clean_try_success:
  assumes v: "r < length h" and t: "clean_try nt sd h r R = Inr e"
  shows "\<exists>e1 d. clean_loop nt R \<lparr>heap = h, df = r\<rparr> = Inr e1 \<and>
           shrinks (h ! r) (heap e1 ! df e1) \<and>
           setitem (heap e1 ! df e1) ''id'' (range1 (length (rows (heap e1 ! df e1)))) = Inr d \<and>
           returned e = d \<and> sd (h ! r) \<and> sd d"
proof -
  from t obtain e1 where l: "clean_loop nt R \<lparr>heap = h, df = r\<rparr> = Inr e1"
    and a: "assign_id e1 = Inr e" and s0: "sd (h ! r)" and s1: "sd (heap e ! df e)"
    by (auto simp: clean_try_def split: sum.splits if_splits)
  from v have "df \<lparr>heap = h, df = r\<rparr> < length (heap \<lparr>heap = h, df = r\<rparr>)" by simp
  from clean_loop_follows [OF this l] have f: "follows \<lparr>heap = h, df = r\<rparr> e1" .
  then have s: "shrinks (h ! r) (heap e1 ! df e1)" by (simp add: follows_def)
  from a obtain d where
    d: "setitem (heap e1 ! df e1) ''id'' (range1 (length (rows (heap e1 ! df e1)))) = Inr d"
    and e: "e = e1\<lparr>heap := (heap e1)[df e1 := d]\<rparr>"
    by (auto simp: assign_id_def split: sum.splits)
  from e follows_valid [OF f] have "returned e = d" by (simp add: returned_def)
  with l s d s0 s1 show ?thesis by (auto simp: returned_def)
qed

lemma clean_data_rule_applied_keeps_input:
  assumes "r < length h" "(c, opts) \<in> set R"
    "set opts \<inter> {''drop_duplicates'', ''remove_nulls'', ''validate_string'',
                 ''validate_length'', ''validate_numeric''} \<noteq> {}"
  shows "heap (clean_data nt sd h r R) ! r = h ! r"
proof (cases "clean_loop nt R \<lparr>heap = h, df = r\<rparr>")
  case (Inl err)
  from clean_data_loop_fails [OF this] assms(1) show ?thesis
    by (simp add: nth_append)
next
  case (Inr e)
  from assign_id_total [of e] obtain d where
    d: "setitem (heap e ! df e) ''id'' (range1 (length (rows (heap e ! df e)))) = Inr d"
    by blast
  note facts = clean_data_loop_done [OF assms(1) Inr d]
  from assms(1) have v: "df \<lparr>heap = h, df = r\<rparr> < length (heap \<lparr>heap = h, df = r\<rparr>)" by simp
  from clean_loop_beyond [OF v Inr assms(2,3)] have b: "length h \<le> df e" by simp
  from caller_store_kept [OF facts(4) b] have k: "take (length h) ((heap e)[df e := d]) = h" .
  from follows_input [OF facts(4)] assms(1) have i: "heap e ! r = h ! r" by simp
  from b assms(1) have ne: "df e \<noteq> r" by simp
  show ?thesis
    using facts(1) [of sd] k i ne assms(1) by (simp add: nth_append)
qed

lemma rebind_each_filter_cons:
  "rebind_each nt c (filter (\<lambda>rule. rule \<in> set opts) (rule # rules)) e =
     (case when_in rule opts (rule_rhs nt c rule) e of
        Inl err \<Rightarrow> Inl err
      | Inr e' \<Rightarrow> rebind_each nt c (filter (\<lambda>rule. rule \<in> set opts) rules) e')"
  by (simp add: when_in_def)

lemma rule_rhs_each:
  "rule_rhs nt c ''drop_duplicates'' = (\<lambda>d. drop_duplicates d c)"
  "rule_rhs nt c ''remove_nulls'' = (\<lambda>d. remove_nulls d c)"
  "rule_rhs nt c ''validate_string'' = (\<lambda>d. validate_string d c)"
  "rule_rhs nt c ''validate_length'' = (\<lambda>d. validate_length d c)"
  "rule_rhs nt c ''validate_numeric'' = (\<lambda>d. validate_numeric nt d c)"
  by (rule ext, simp add: rule_rhs_def)+

lemma sum_case_same: "(case x of Inl err \<Rightarrow> Inl err | Inr e \<Rightarrow> Inr e) = x"
  by (cases x) simp_all

lemma rebind_each_filter_nil: "rebind_each nt c (filter P []) = Inr"
  by (rule ext) simp

lemma loop_body_fixed_order:
  "loop_body nt c opts e = rebind_each nt c (filter (\<lambda>rule. rule \<in> set opts) rule_order) e"
  unfolding loop_body_def rule_order_def rebind_each_filter_cons rule_rhs_each
    rebind_each_filter_nil sum_case_same
  by (rule refl)

section \<open>Properties of the cleaning engine\<close>

subsection \<open>Repeating \<^verbatim>\<open>drop_duplicates\<close>\<close>

text \<open>
  C9. Applying \<^verbatim>\<open>drop_duplicates\<close> on a column to the frame that
  \<^verbatim>\<open>drop_duplicates\<close> on that column returned gives that frame again. On a
  frame that is not empty and has the column, the rows kept are the first row
  of each distinct value of the column, in the order of the frame.
\<close>

theorem drop_duplicates_idempotent:
  assumes "drop_duplicates d column = Inr d1"
  shows "drop_duplicates d1 column = Inr d1 \<and>
         (\<forall>i. \<not> frame_empty d \<and> index_of column (columns d) = Some i \<longrightarrow>
            rows d1 = firsts (\<lambda>row. row ! i) [] (rows d))"
proof (cases "frame_empty d")
  case True
  with assms show ?thesis by (simp add: drop_duplicates_def)
next
  case False
  show ?thesis
  proof (cases "index_of column (columns d)")
    case None
    with False assms show ?thesis by (simp add: drop_duplicates_absent)
  next
    case (Some i)
    from drop_duplicates_rows [OF False Some] assms
    have d1: "d1 = d\<lparr>rows := firsts (\<lambda>row. row ! i) [] (rows d)\<rparr>" by simp
    have again: "drop_duplicates d1 column = Inr d1"
    proof (cases "frame_empty d1")
      case True
      then show ?thesis by (simp add: drop_duplicates_def)
    next
      case False
      from Some d1 have "index_of column (columns d1) = Some i" by simp
      from drop_duplicates_rows [OF False this] show ?thesis
        by (simp add: d1 firsts_idem)
    qed
    from again d1 Some show ?thesis by simp
  qed
qed

theorem drop_duplicates_idempotent_witness:
  "drop_duplicates \<lparr>columns = [''k''], rows = [[Text ''a''], [Null], [Text ''a''], [Null], [Num 1]]\<rparr> ''k''
     = Inr \<lparr>columns = [''k''], rows = [[Text ''a''], [Null], [Num 1]]\<rparr> \<and>
   drop_duplicates \<lparr>columns = [''k''], rows = [[Text ''a''], [Null], [Num 1]]\<rparr> ''k''
     = Inr \<lparr>columns = [''k''], rows = [[Text ''a''], [Null], [Num 1]]\<rparr>"
proof -
  have first: "drop_duplicates \<lparr>columns = [''k''], rows = [[Text ''a''], [Null], [Text ''a''], [Null], [Num 1]]\<rparr> ''k''
     = Inr \<lparr>columns = [''k''], rows = [[Text ''a''], [Null], [Num 1]]\<rparr>"
    by (simp add: drop_duplicates_def frame_empty_def getitem_def getitem_mask_def)
  from drop_duplicates_idempotent [OF first] first show ?thesis by simp
qed

subsection \<open>The length rule\<close>

text \<open>
  C8. With only \<^verbatim>\<open>validate_length\<close> listed for a column of the frame, the loop
  body rebinds \<^verbatim>\<open>df\<close> to a new frame holding exactly the rows whose cell in
  that column has a \<^verbatim>\<open>str\<close> form of length at least 3: three characters are
  enough, two are not. An integer is measured by its numeral, so 12 has
  length 2 and its row goes.
\<close>

theorem validate_length_threshold:
  assumes "index_of column (columns (heap e ! df e)) = Some i"
  shows "loop_body nt column [''validate_length''] e =
           Inr \<lparr>heap = heap e @
                  [(heap e ! df e)\<lparr>rows :=
                     filter (\<lambda>row. 3 \<le> length (astype_str (row ! i))) (rows (heap e ! df e))\<rparr>],
                df = length (heap e)\<rparr> \<and>
         astype_str (Num 12) = ''12''"
proof -
  have "astype_str (Num 12) = ''12''"
    by (simp add: str_int_def digit_char_def)
  moreover have "loop_body nt column [''validate_length''] e =
           Inr \<lparr>heap = heap e @
                  [(heap e ! df e)\<lparr>rows :=
                     filter (\<lambda>row. 3 \<le> length (astype_str (row ! i))) (rows (heap e ! df e))\<rparr>],
                df = length (heap e)\<rparr>"
    by (simp add: loop_body_def when_in_def rebind_def validate_length_rows [OF assms])
  ultimately show ?thesis by simp
qed

theorem validate_length_threshold_witness:
  "returned (case loop_body digits_text ''v'' [''validate_length'']
       \<lparr>heap = [\<lparr>columns = [''v''],
                 rows = [[Text ''abc''], [Text ''ab''], [Num 12], [Num 123], [Null]]\<rparr>], df = 0\<rparr>
     of Inr e \<Rightarrow> e)
   = \<lparr>columns = [''v''], rows = [[Text ''abc''], [Num 123], [Null]]\<rparr>"
  using validate_length_threshold [of "''v''"
      "\<lparr>heap = [\<lparr>columns = [''v''],
                 rows = [[Text ''abc''], [Text ''ab''], [Num 12], [Num 123], [Null]]\<rparr>], df = 0\<rparr>" 0 digits_text]
  by (simp add: returned_def str_int_def digit_char_def)

subsection \<open>The scenario of the specification\<close>

text \<open>
  C7. The frame with columns \<^verbatim>\<open>name\<close>, \<^verbatim>\<open>age\<close> and the rows
  (alice, 30), (alice, 31), (None, 25), (bo, x), cleaned with
  \<^verbatim>\<open>{name: [drop_duplicates, remove_nulls], age: [validate_numeric]}\<close>, for
  every recogniser that takes \<^verbatim>\<open>30\<close> for a number and \<^verbatim>\<open>x\<close> for none, and
  every display that shows the frame passed in and the frame that comes out.
  The store after the call shows each step: \<^verbatim>\<open>drop_duplicates\<close> on \<^verbatim>\<open>name\<close>
  removes (alice, 31), \<^verbatim>\<open>remove_nulls\<close> removes (None, 25),
  \<^verbatim>\<open>validate_numeric\<close> on \<^verbatim>\<open>age\<close> removes (bo, x), and the frame returned
  is the row (alice, 30) with \<^verbatim>\<open>id\<close> 1.
\<close>

theorem scenario_name_age:
  assumes "nt ''30''" "\<not> nt ''x''"
    and "sd \<lparr>columns = [''name'', ''age''],
             rows = [[Text ''alice'', Text ''30''], [Text ''alice'', Text ''31''],
                     [Null, Text ''25''], [Text ''bo'', Text ''x'']]\<rparr>"
    and "sd \<lparr>columns = [''name'', ''age'', ''id''],
                rows = [[Text ''alice'', Text ''30'', Num 1]]\<rparr>"
  shows "clean_data nt sd
           [\<lparr>columns = [''name'', ''age''],
             rows = [[Text ''alice'', Text ''30''], [Text ''alice'', Text ''31''],
                     [Null, Text ''25''], [Text ''bo'', Text ''x'']]\<rparr>] 0
           [(''name'', [''drop_duplicates'', ''remove_nulls'']), (''age'', [''validate_numeric''])]
         = \<lparr>heap =
              [\<lparr>columns = [''name'', ''age''],
                rows = [[Text ''alice'', Text ''30''], [Text ''alice'', Text ''31''],
                        [Null, Text ''25''], [Text ''bo'', Text ''x'']]\<rparr>,
               \<lparr>columns = [''name'', ''age''],
                rows = [[Text ''alice'', Text ''30''], [Null, Text ''25''], [Text ''bo'', Text ''x'']]\<rparr>,
               \<lparr>columns = [''name'', ''age''],
                rows = [[Text ''alice'', Text ''30''], [Text ''bo'', Text ''x'']]\<rparr>,
               \<lparr>columns = [''name'', ''age'', ''id''],
                rows = [[Text ''alice'', Text ''30'', Num 1]]\<rparr>],
             df = 3\<rparr>"
  using assms
  by (simp add: clean_data_def clean_try_def loop_body_def when_in_def rebind_def
      drop_duplicates_def remove_nulls_def validate_numeric_def frame_empty_def
      getitem_def getitem_mask_def notnull_def assign_id_def setitem_def range1_def)

theorem scenario_name_age_witness:
  "digits_text ''30'' \<and> \<not> digits_text ''x'' \<and>
   returned (clean_data digits_text frame_shown
           [\<lparr>columns = [''name'', ''age''],
             rows = [[Text ''alice'', Text ''30''], [Text ''alice'', Text ''31''],
                     [Null, Text ''25''], [Text ''bo'', Text ''x'']]\<rparr>] 0
           [(''name'', [''drop_duplicates'', ''remove_nulls'']), (''age'', [''validate_numeric''])])
   = \<lparr>columns = [''name'', ''age'', ''id''], rows = [[Text ''alice'', Text ''30'', Num 1]]\<rparr>"
proof -
  have a: "digits_text ''30''" and b: "\<not> digits_text ''x''"
    by (simp_all add: digits_text_def)
  have c: "frame_shown \<lparr>columns = [''name'', ''age''],
             rows = [[Text ''alice'', Text ''30''], [Text ''alice'', Text ''31''],
                     [Null, Text ''25''], [Text ''bo'', Text ''x'']]\<rparr>"
    and d: "frame_shown \<lparr>columns = [''name'', ''age'', ''id''],
                rows = [[Text ''alice'', Text ''30'', Num 1]]\<rparr>"
    by (simp_all add: frame_shown_def)
  from scenario_name_age [OF a b c d] a b show ?thesis
    by (simp add: returned_def)
qed

subsection \<open>Failure of the whole call\<close>

text \<open>
  C6. When the body of the loop raises at some item of the rule set, after the
  items before it have run, \<^verbatim>\<open>clean_data\<close> returns a new empty frame, the
  only frame it adds to the caller's store: nothing of the work done so far is
  returned. In every case the call ends in one of three ways. It fails before
  line 80, with that outcome. Or the loop has run over the whole rule set, the
  \<^verbatim>\<open>id\<close> column is set, \<^verbatim>\<open>st.dataframe\<close> raises on the outcome at line 80, and
  a new empty frame is returned. Or the loop has run over the whole rule set
  and the frame returned is the frame it ended on with the \<^verbatim>\<open>id\<close> column set.
  So the frame returned is the empty frame or has an \<^verbatim>\<open>id\<close> column; the empty
  frame has none, and the two are told apart.
\<close>

theorem clean_data_all_or_nothing:
  assumes "r < length h"
  shows "(\<forall>R1 c opts R2 e1 err.
            R = R1 @ (c, opts) # R2 \<and> clean_loop nt R1 \<lparr>heap = h, df = r\<rparr> = Inr e1 \<and>
            loop_body nt c opts e1 = Inl err \<longrightarrow>
            clean_data nt sd h r R = \<lparr>heap = h @ [empty_frame], df = length h\<rparr>) \<and>
         (clean_data nt sd h r R = \<lparr>heap = h @ [empty_frame], df = length h\<rparr> \<or>
          (\<exists>e d. clean_loop nt R \<lparr>heap = h, df = r\<rparr> = Inr e \<and>
             setitem (heap e ! df e) ''id'' (range1 (length (rows (heap e ! df e)))) = Inr d \<and>
             \<not> sd d \<and>
             clean_data nt sd h r R =
               \<lparr>heap = take (length h) ((heap e)[df e := d]) @ [empty_frame], df = length h\<rparr>) \<or>
          (\<exists>e d. clean_loop nt R \<lparr>heap = h, df = r\<rparr> = Inr e \<and>
             setitem (heap e ! df e) ''id'' (range1 (length (rows (heap e ! df e)))) = Inr d \<and>
             clean_data nt sd h r R = e\<lparr>heap := (heap e)[df e := d]\<rparr> \<and>
             returned (clean_data nt sd h r R) = d \<and> ''id'' \<in> set (columns d))) \<and>
         (returned (clean_data nt sd h r R) = empty_frame \<or>
          ''id'' \<in> set (columns (returned (clean_data nt sd h r R))))"
proof -
  let ?c = "clean_data nt sd h r R"
  let ?fail = "\<lparr>heap = h @ [empty_frame], df = length h\<rparr>"
  have first: "\<forall>R1 c opts R2 e1 err.
            R = R1 @ (c, opts) # R2 \<and> clean_loop nt R1 \<lparr>heap = h, df = r\<rparr> = Inr e1 \<and>
            loop_body nt c opts e1 = Inl err \<longrightarrow> ?c = ?fail"
  proof (intro allI impI)
    fix R1 c opts R2 e1 err
    assume "R = R1 @ (c, opts) # R2 \<and> clean_loop nt R1 \<lparr>heap = h, df = r\<rparr> = Inr e1 \<and>
            loop_body nt c opts e1 = Inl err"
    then have "clean_loop nt R \<lparr>heap = h, df = r\<rparr> = Inl err"
      using clean_loop_fails_from by blast
    then show "?c = ?fail" by (rule clean_data_loop_fails)
  qed
  have cases3: "?c = ?fail \<or>
          (\<exists>e d. clean_loop nt R \<lparr>heap = h, df = r\<rparr> = Inr e \<and>
             setitem (heap e ! df e) ''id'' (range1 (length (rows (heap e ! df e)))) = Inr d \<and>
             \<not> sd d \<and>
             ?c = \<lparr>heap = take (length h) ((heap e)[df e := d]) @ [empty_frame], df = length h\<rparr>) \<or>
          (\<exists>e d. clean_loop nt R \<lparr>heap = h, df = r\<rparr> = Inr e \<and>
             setitem (heap e ! df e) ''id'' (range1 (length (rows (heap e ! df e)))) = Inr d \<and>
             ?c = e\<lparr>heap := (heap e)[df e := d]\<rparr> \<and>
             returned ?c = d \<and> ''id'' \<in> set (columns d))"
    and last: "returned ?c = empty_frame \<or> ''id'' \<in> set (columns (returned ?c))"
  proof -
    show "?c = ?fail \<or>
          (\<exists>e d. clean_loop nt R \<lparr>heap = h, df = r\<rparr> = Inr e \<and>
             setitem (heap e ! df e) ''id'' (range1 (length (rows (heap e ! df e)))) = Inr d \<and>
             \<not> sd d \<and>
             ?c = \<lparr>heap = take (length h) ((heap e)[df e := d]) @ [empty_frame], df = length h\<rparr>) \<or>
          (\<exists>e d. clean_loop nt R \<lparr>heap = h, df = r\<rparr> = Inr e \<and>
             setitem (heap e ! df e) ''id'' (range1 (length (rows (heap e ! df e)))) = Inr d \<and>
             ?c = e\<lparr>heap := (heap e)[df e := d]\<rparr> \<and>
             returned ?c = d \<and> ''id'' \<in> set (columns d))"
    proof (cases "clean_loop nt R \<lparr>heap = h, df = r\<rparr>")
      case (Inl err)
      from clean_data_loop_fails [OF this] show ?thesis by simp
    next
      case (Inr e)
      from assign_id_total [of e] obtain d where
        d: "setitem (heap e ! df e) ''id'' (range1 (length (rows (heap e ! df e)))) = Inr d"
        and idc: "''id'' \<in> set (columns d)" by blast
      note facts = clean_data_loop_done [OF assms Inr d]
      show ?thesis
      proof (cases "sd (h ! r)")
        case False
        with facts(1) [of sd] show ?thesis by simp
      next
        case True
        show ?thesis
        proof (cases "sd d")
          case False
          with True facts(1) [of sd] Inr d show ?thesis by auto
        next
          case shown: True
          with True facts(1) [of sd] have c: "?c = e\<lparr>heap := (heap e)[df e := d]\<rparr>" by simp
          with facts(2) have "returned ?c = d" by (simp add: returned_def)
          with c Inr d idc show ?thesis by auto
        qed
      qed
    qed
    then show "returned ?c = empty_frame \<or> ''id'' \<in> set (columns (returned ?c))"
    proof (elim disjE exE conjE)
      assume "?c = ?fail"
      then show ?thesis by (simp add: returned_def)
    next
      fix e d
      assume "?c = \<lparr>heap = take (length h) ((heap e)[df e := d]) @ [empty_frame], df = length h\<rparr>"
        and l: "clean_loop nt R \<lparr>heap = h, df = r\<rparr> = Inr e"
        and d: "setitem (heap e ! df e) ''id'' (range1 (length (rows (heap e ! df e)))) = Inr d"
      with clean_data_loop_done(3) [OF assms l d] show ?thesis
        by (simp add: returned_def nth_append min_def)
    next
      fix e d
      assume "returned ?c = d" "''id'' \<in> set (columns d)"
      then show ?thesis by simp
    qed
  qed
  from first cases3 last show ?thesis by blast
qed

theorem clean_data_all_or_nothing_witness:
  "clean_data digits_text frame_shown [\<lparr>columns = [''name''], rows = [[Text ''alice''], [Null]]\<rparr>] 0
     [(''name'', [''remove_nulls'']), (''city'', [''validate_string''])]
   = \<lparr>heap = [\<lparr>columns = [''name''], rows = [[Text ''alice''], [Null]]\<rparr>, empty_frame], df = 1\<rparr>"
proof -
  let ?D = "\<lparr>columns = [''name''], rows = [[Text ''alice''], [Null]]\<rparr>"
  let ?D1 = "\<lparr>columns = [''name''], rows = [[Text ''alice'']]\<rparr>"
  have v: "(0::nat) < length [?D]" by simp
  have s: "clean_loop digits_text [(''name'', [''remove_nulls''])] \<lparr>heap = [?D], df = 0\<rparr>
             = Inr \<lparr>heap = [?D, ?D1], df = 1\<rparr>"
    by (simp add: loop_body_def when_in_def rebind_def remove_nulls_def getitem_def
        getitem_mask_def notnull_def)
  have f: "loop_body digits_text ''city'' [''validate_string''] \<lparr>heap = [?D, ?D1], df = 1\<rparr>
             = Inl (KeyError ''city'')"
    by (simp add: loop_body_def when_in_def rebind_def validate_string_def getitem_def)
  from clean_data_all_or_nothing [OF v, THEN conjunct1, rule_format,
      of "[(''name'', [''remove_nulls'']), (''city'', [''validate_string''])]"
         "[(''name'', [''remove_nulls''])]" "''city''" "[''validate_string'']" "[]"
         digits_text "\<lparr>heap = [?D, ?D1], df = 1\<rparr>" "KeyError ''city''"] s f
  show ?thesis by simp
qed

subsection \<open>The order of a column's rules\<close>

text \<open>
  C1, as the code has it. The loop body for a column runs the statements
  \<^verbatim>\<open>df = ...\<close> of the rules that occur in the column's list, one after the
  other in the fixed order \<^verbatim>\<open>drop_duplicates\<close>, \<^verbatim>\<open>remove_nulls\<close>,
  \<^verbatim>\<open>validate_string\<close>, \<^verbatim>\<open>validate_length\<close>, \<^verbatim>\<open>validate_numeric\<close>, and no
  other statement; the order of the list is never read. So two rule sets with
  the same columns in the same order, whose lists have the same members column
  by column, give the same store and the same frame.
\<close>

theorem clean_data_fixed_rule_order:
  assumes "list_all2 (\<lambda>a b. fst a = fst b \<and> set (snd a) = set (snd b)) R R'"
  shows "loop_body nt column options e =
           rebind_each nt column (filter (\<lambda>rule. rule \<in> set options) rule_order) e \<and>
         clean_data nt sd h r R = clean_data nt sd h r R'"
  using clean_loop_set [OF assms] loop_body_fixed_order [of nt column options e]
  by (simp add: clean_data_def clean_try_def)

theorem clean_data_fixed_rule_order_witness:
  "loop_body digits_text ''v'' [''validate_numeric'', ''remove_nulls'']
     \<lparr>heap = [\<lparr>columns = [''v''], rows = [[Null], [Text ''x''], [Text ''7'']]\<rparr>], df = 0\<rparr> =
   rebind_each digits_text ''v'' [''remove_nulls'', ''validate_numeric'']
     \<lparr>heap = [\<lparr>columns = [''v''], rows = [[Null], [Text ''x''], [Text ''7'']]\<rparr>], df = 0\<rparr> \<and>
   clean_data digits_text frame_shown
     [\<lparr>columns = [''v''], rows = [[Null], [Text ''x''], [Text ''7'']]\<rparr>] 0
     [(''v'', [''validate_numeric'', ''remove_nulls''])] =
   clean_data digits_text frame_shown
     [\<lparr>columns = [''v''], rows = [[Null], [Text ''x''], [Text ''7'']]\<rparr>] 0
     [(''v'', [''remove_nulls'', ''validate_numeric''])]"
proof -
  have a: "list_all2 (\<lambda>a b. fst a = fst b \<and> set (snd a) = set (snd b))
          [(''v'', [''validate_numeric'', ''remove_nulls''])]
          [(''v'', [''remove_nulls'', ''validate_numeric''])]"
    by auto
  have b: "filter (\<lambda>rule. rule \<in> set [''validate_numeric'', ''remove_nulls'']) rule_order
             = [''remove_nulls'', ''validate_numeric'']"
    by (simp add: rule_order_def)
  from clean_data_fixed_rule_order [OF a, of digits_text "''v''"
      "[''validate_numeric'', ''remove_nulls'']"
      "\<lparr>heap = [\<lparr>columns = [''v''], rows = [[Null], [Text ''x''], [Text ''7'']]\<rparr>], df = 0\<rparr>"
      frame_shown "[\<lparr>columns = [''v''], rows = [[Null], [Text ''x''], [Text ''7'']]\<rparr>]" 0] b
  show ?thesis by simp
qed

text \<open>
  The statement of the specification fails on the data it proposes, a column
  with a null, a string that is no number and a number. With
  \<^verbatim>\<open>validate_numeric\<close> listed first, the first frame the call allocates still
  holds the row of \<^verbatim>\<open>x\<close> and has lost the null: \<^verbatim>\<open>remove_nulls\<close> ran first.
  And the two orders return the same frame.
\<close>

theorem listed_order_counterexample:
  "heap (clean_data digits_text frame_shown
      [\<lparr>columns = [''v''], rows = [[Null], [Text ''x''], [Text ''7'']]\<rparr>] 0
      [(''v'', [''validate_numeric'', ''remove_nulls''])]) ! 1
     = \<lparr>columns = [''v''], rows = [[Text ''x''], [Text ''7'']]\<rparr> \<and>
   returned (clean_data digits_text frame_shown
      [\<lparr>columns = [''v''], rows = [[Null], [Text ''x''], [Text ''7'']]\<rparr>] 0
      [(''v'', [''validate_numeric'', ''remove_nulls''])])
     = \<lparr>columns = [''v'', ''id''], rows = [[Text ''7'', Num 1]]\<rparr> \<and>
   returned (clean_data digits_text frame_shown
      [\<lparr>columns = [''v''], rows = [[Null], [Text ''x''], [Text ''7'']]\<rparr>] 0
      [(''v'', [''remove_nulls'', ''validate_numeric''])])
     = \<lparr>columns = [''v'', ''id''], rows = [[Text ''7'', Num 1]]\<rparr>"
  by (simp add: clean_data_def clean_try_def loop_body_def when_in_def rebind_def
      remove_nulls_def validate_numeric_def getitem_def getitem_mask_def notnull_def
      assign_id_def setitem_def range1_def returned_def digits_text_def frame_shown_def)

subsection \<open>The order of the columns\<close>

text \<open>
  C4, as the code has it. The loop runs over the items of the rule set in the
  rule set's own order, and the body for an item starts from the store and the
  frame the items before it left: a rule set \<open>R1\<close> followed by \<open>R2\<close> is \<open>R1\<close>,
  then \<open>R2\<close> on its outcome, and a failure in \<open>R1\<close> ends the loop. The columns
  of the frame play no part in the order.
\<close>

theorem clean_loop_in_rule_set_order:
  "clean_loop nt (R1 @ (column, options) # R2) e =
     (case clean_loop nt R1 e of
        Inl err \<Rightarrow> Inl err
      | Inr e1 \<Rightarrow>
          (case loop_body nt column options e1 of
             Inl err \<Rightarrow> Inl err
           | Inr e2 \<Rightarrow> clean_loop nt R2 e2))"
  by (simp add: clean_loop_append split: sum.splits)

theorem clean_loop_in_rule_set_order_witness:
  "clean_loop digits_text [(''b'', [''remove_nulls'']), (''a'', [''drop_duplicates''])]
     \<lparr>heap = [\<lparr>columns = [''a'', ''b''], rows = [[Text ''x'', Null], [Text ''x'', Num 1]]\<rparr>], df = 0\<rparr>
   = Inr \<lparr>heap = [\<lparr>columns = [''a'', ''b''], rows = [[Text ''x'', Null], [Text ''x'', Num 1]]\<rparr>,
                  \<lparr>columns = [''a'', ''b''], rows = [[Text ''x'', Num 1]]\<rparr>,
                  \<lparr>columns = [''a'', ''b''], rows = [[Text ''x'', Num 1]]\<rparr>], df = 2\<rparr>"
  using clean_loop_in_rule_set_order [of digits_text "[]" "''b''" "[''remove_nulls'']"
      "[(''a'', [''drop_duplicates''])]"
      "\<lparr>heap = [\<lparr>columns = [''a'', ''b''], rows = [[Text ''x'', Null], [Text ''x'', Num 1]]\<rparr>], df = 0\<rparr>"]
  by (simp add: loop_body_def when_in_def rebind_def remove_nulls_def drop_duplicates_def
      frame_empty_def getitem_def getitem_mask_def notnull_def)

text \<open>
  The statement of the specification fails on a frame with the columns \<^verbatim>\<open>a\<close>, \<^verbatim>\<open>b\<close> and
  the rows (x, None), (x, 1). The rule set that lists \<^verbatim>\<open>b\<close> before \<^verbatim>\<open>a\<close>
  removes the null of \<^verbatim>\<open>b\<close> first and keeps (x, 1); the rule set with the same
  entries in the order of the frame's columns keeps nothing.
\<close>

theorem column_order_counterexample:
  "returned (clean_data digits_text frame_shown
      [\<lparr>columns = [''a'', ''b''], rows = [[Text ''x'', Null], [Text ''x'', Num 1]]\<rparr>] 0
      [(''b'', [''remove_nulls'']), (''a'', [''drop_duplicates''])])
     = \<lparr>columns = [''a'', ''b'', ''id''], rows = [[Text ''x'', Num 1, Num 1]]\<rparr> \<and>
   returned (clean_data digits_text frame_shown
      [\<lparr>columns = [''a'', ''b''], rows = [[Text ''x'', Null], [Text ''x'', Num 1]]\<rparr>] 0
      [(''a'', [''drop_duplicates'']), (''b'', [''remove_nulls''])])
     = \<lparr>columns = [''a'', ''b'', ''id''], rows = []\<rparr>"
  by (simp add: clean_data_def clean_try_def loop_body_def when_in_def rebind_def
      remove_nulls_def drop_duplicates_def frame_empty_def getitem_def getitem_mask_def
      notnull_def assign_id_def setitem_def range1_def returned_def frame_shown_def)

subsection \<open>Rules for a column the frame does not have\<close>

text \<open>
  C2, as the code has it. When the rule set has an item for a label that is
  not a column of the caller's frame, and the item's list names
  \<^verbatim>\<open>remove_nulls\<close>, \<^verbatim>\<open>validate_string\<close>, \<^verbatim>\<open>validate_length\<close> or
  \<^verbatim>\<open>validate_numeric\<close>, the call fails as a whole, whatever else the rule set
  holds: the lookup \<^verbatim>\<open>df[column]\<close> raises \<^verbatim>\<open>KeyError\<close> (if neither the display
  of line 59 nor an earlier item has failed before), the \<^verbatim>\<open>except\<close> clause
  returns a new empty frame, and no column is cleaned.
\<close>

theorem clean_data_unknown_column_fails:
  assumes "r < length h" "(c, opts) \<in> set R" "c \<notin> set (columns (h ! r))"
    "set opts \<inter> {''remove_nulls'', ''validate_string'', ''validate_length'',
           ''validate_numeric''} \<noteq> {}"
  shows "clean_data nt sd h r R = \<lparr>heap = h @ [empty_frame], df = length h\<rparr> \<and>
         returned (clean_data nt sd h r R) = empty_frame"
proof -
  have "\<exists>err. clean_loop nt R \<lparr>heap = h, df = r\<rparr> = Inl err"
    using clean_loop_absent [of "\<lparr>heap = h, df = r\<rparr>" c opts R nt] assms by simp
  then show ?thesis
    by (auto simp: clean_data_def clean_try_def returned_def)
qed

theorem clean_data_unknown_column_fails_witness:
  "returned (clean_data digits_text frame_shown
      [\<lparr>columns = [''name''], rows = [[Text ''alice''], [Text ''  '']]\<rparr>] 0
      [(''name'', [''validate_string'']), (''city'', [''validate_length''])]) = empty_frame"
  using clean_data_unknown_column_fails [of 0
      "[\<lparr>columns = [''name''], rows = [[Text ''alice''], [Text ''  '']]\<rparr>]"
      "''city''" "[''validate_length'']"
      "[(''name'', [''validate_string'']), (''city'', [''validate_length''])]" digits_text]
  by (simp add: returned_def)

text \<open>
  The statement of the specification fails on the frame with the single column \<^verbatim>\<open>name\<close> and
  the rows alice and None, with \<^verbatim>\<open>remove_nulls\<close> configured for the unknown
  column \<^verbatim>\<open>city\<close> and for \<^verbatim>\<open>name\<close>: the frame returned has no column and no
  row, where skipping \<^verbatim>\<open>city\<close> would have returned the row of alice.
\<close>

theorem unknown_column_counterexample:
  "returned (clean_data digits_text frame_shown
      [\<lparr>columns = [''name''], rows = [[Text ''alice''], [Null]]\<rparr>] 0
      [(''city'', [''remove_nulls'']), (''name'', [''remove_nulls''])])
     = \<lparr>columns = [], rows = []\<rparr>"
  by (simp add: clean_data_def clean_try_def loop_body_def when_in_def rebind_def
      remove_nulls_def getitem_def returned_def empty_frame_def)

subsection \<open>The caller's frame\<close>

text \<open>
  C3. When no rule is applied, \<^verbatim>\<open>df\<close> still refers to the caller's frame at
  line 78, and the assignment of the \<^verbatim>\<open>id\<close> column changes that frame: after the
  call the reference the caller passed holds a frame with an \<^verbatim>\<open>id\<close> column, and
  it is the frame returned. Both frames of the example are frames that
  \<^verbatim>\<open>st.dataframe\<close> shows.
\<close>

theorem clean_data_no_rule_changes_input:
  "clean_data nt frame_shown
     [\<lparr>columns = [''name''], rows = [[Text ''alice'']]\<rparr>] 0 [(''name'', [])]
     = \<lparr>heap = [\<lparr>columns = [''name'', ''id''], rows = [[Text ''alice'', Num 1]]\<rparr>], df = 0\<rparr>"
  by (simp add: clean_data_def clean_try_def loop_body_def when_in_def
      assign_id_def setitem_def range1_def frame_shown_def)

subsection \<open>The \<^verbatim>\<open>id\<close> column\<close>

text \<open>
  C5, as the code has it. When every label of the rule set is a column of the
  caller's well formed frame, the loop and the assignment of line 78 raise
  nothing, and the frame they end on has at most the rows of the frame passed
  in, an \<^verbatim>\<open>id\<close> column that reads 1, 2, ..., n for its n rows, whether or
  not the frame passed in had a column of that name, and is well formed; from
  a frame without rows it has no rows and an empty \<^verbatim>\<open>id\<close> column. That frame
  is returned when \<^verbatim>\<open>st.dataframe\<close> shows the frame passed in (line 59) and
  shows that frame (line 80). When one of the two displays raises, the call
  returns a new empty frame, which has no \<^verbatim>\<open>id\<close> column.
\<close>

theorem clean_data_id_column:
  assumes "r < length h" "wf_frame (h ! r)" "fst ` set R \<subseteq> set (columns (h ! r))"
  shows "\<exists>e d. clean_loop nt R \<lparr>heap = h, df = r\<rparr> = Inr e \<and>
           setitem (heap e ! df e) ''id'' (range1 (length (rows (heap e ! df e)))) = Inr d \<and>
           length (rows d) \<le> length (rows (h ! r)) \<and>
           getitem d ''id'' = Inr (map (\<lambda>k. Num (int k)) [1..<Suc (length (rows d))]) \<and>
           wf_frame d \<and>
           (rows (h ! r) = [] \<longrightarrow> rows d = [] \<and> getitem d ''id'' = Inr []) \<and>
           (if sd (h ! r) \<and> sd d
            then clean_try nt sd h r R = Inr (clean_data nt sd h r R) \<and>
                 returned (clean_data nt sd h r R) = d
            else returned (clean_data nt sd h r R) = empty_frame)"
proof -
  let ?e0 = "\<lparr>heap = h, df = r\<rparr>"
  from assms have v: "df ?e0 < length (heap ?e0)"
    and c: "fst ` set R \<subseteq> set (columns (heap ?e0 ! df ?e0))" by simp_all
  from clean_loop_present [OF v c] obtain e1 where l: "clean_loop nt R ?e0 = Inr e1" by blast
  from clean_loop_follows [OF v l] have f: "follows ?e0 e1" .
  let ?d1 = "heap e1 ! df e1"
  from f have s: "shrinks (h ! r) ?d1" by (simp add: follows_def)
  have w1: "wf_frame ?d1" using shrinks_wf [OF assms(2) s] .
  from setitem_wf [OF w1, of "range1 (length (rows ?d1))" "''id''"] obtain d where
    d: "setitem ?d1 ''id'' (range1 (length (rows ?d1))) = Inr d"
      "getitem d ''id'' = Inr (range1 (length (rows ?d1)))" "wf_frame d"
      "length (rows d) = length (rows ?d1)"
    by (auto simp: length_range1)
  note facts = clean_data_loop_done [OF assms(1) l d(1)]
  have le: "length (rows d) \<le> length (rows (h ! r))"
    using shrinks_length [OF s] d(4) by simp
  have idc: "getitem d ''id'' = Inr (map (\<lambda>k. Num (int k)) [1..<Suc (length (rows d))])"
    using d(2,4) by (simp add: range1_def)
  have emp: "rows (h ! r) = [] \<longrightarrow> rows d = [] \<and> getitem d ''id'' = Inr []"
    using le idc by auto
  have out: "if sd (h ! r) \<and> sd d
            then clean_try nt sd h r R = Inr (clean_data nt sd h r R) \<and>
                 returned (clean_data nt sd h r R) = d
            else returned (clean_data nt sd h r R) = empty_frame"
  proof (cases "sd (h ! r) \<and> sd d")
    case True
    with facts(1) [of sd] have cd: "clean_data nt sd h r R = e1\<lparr>heap := (heap e1)[df e1 := d]\<rparr>"
      by simp
    with facts(2) have ret: "returned (clean_data nt sd h r R) = d"
      by (simp add: returned_def)
    from True l d(1) facts(2) have "clean_try nt sd h r R = Inr (e1\<lparr>heap := (heap e1)[df e1 := d]\<rparr>)"
      by (simp add: clean_try_def assign_id_def)
    with True cd ret show ?thesis by simp
  next
    case False
    with facts(1) [of sd] facts(3) have "returned (clean_data nt sd h r R) = empty_frame"
      by (auto simp: returned_def nth_append min_def)
    then show ?thesis unfolding if_not_P [OF False] .
  qed
  from l d(1) le idc d(3) emp out show ?thesis by blast
qed

theorem clean_data_id_column_witness:
  "returned (clean_data digits_text frame_shown
      [\<lparr>columns = [''id'', ''v''],
        rows = [[Num 7, Text ''a''], [Num 7, Null], [Num 9, Text ''b'']]\<rparr>] 0
      [(''v'', [''remove_nulls''])])
     = \<lparr>columns = [''id'', ''v''], rows = [[Num 1, Text ''a''], [Num 2, Text ''b'']]\<rparr>"
proof -
  let ?D = "\<lparr>columns = [''id'', ''v''],
        rows = [[Num 7, Text ''a''], [Num 7, Null], [Num 9, Text ''b'']]\<rparr>"
  let ?D1 = "\<lparr>columns = [''id'', ''v''], rows = [[Num 7, Text ''a''], [Num 9, Text ''b'']]\<rparr>"
  let ?R = "[(''v'', [''remove_nulls''])]"
  have a: "(0::nat) < length [?D]" by simp
  have b: "wf_frame ([?D] ! 0)" by (simp add: wf_frame_def)
  have c: "fst ` set ?R \<subseteq> set (columns ([?D] ! 0))" by simp
  have l: "clean_loop digits_text ?R \<lparr>heap = [?D], df = 0\<rparr> = Inr \<lparr>heap = [?D, ?D1], df = 1\<rparr>"
    by (simp add: loop_body_def when_in_def rebind_def remove_nulls_def getitem_def
        getitem_mask_def notnull_def)
  from clean_data_id_column [OF a b c, of digits_text frame_shown] obtain e :: env and d where
    e: "clean_loop digits_text ?R \<lparr>heap = [?D], df = 0\<rparr> = Inr e" and
    d: "setitem (heap e ! df e) ''id'' (range1 (length (rows (heap e ! df e)))) = Inr d" and
    out: "if frame_shown ([?D] ! 0) \<and> frame_shown d
            then clean_try digits_text frame_shown [?D] 0 ?R
                   = Inr (clean_data digits_text frame_shown [?D] 0 ?R) \<and>
                 returned (clean_data digits_text frame_shown [?D] 0 ?R) = d
            else returned (clean_data digits_text frame_shown [?D] 0 ?R) = empty_frame"
    by blast
  from e l have "e = \<lparr>heap = [?D, ?D1], df = 1\<rparr>" by simp
  with d have "d = \<lparr>columns = [''id'', ''v''], rows = [[Num 1, Text ''a''], [Num 2, Text ''b'']]\<rparr>"
    by (simp add: setitem_def range1_def)
  with out show ?thesis by (simp add: frame_shown_def)
qed

text \<open>
  The statement of the specification fails on the frame with the single column
  \<^verbatim>\<open>v\<close> and the single row of the integer \<open>10\<^sup>3\<^sup>0\<close>, with \<^verbatim>\<open>remove_nulls\<close>
  configured for \<^verbatim>\<open>v\<close>. The frame is well formed and has the column, and
  \<^verbatim>\<open>st.dataframe\<close> raises on it at line 59: the frame returned has no row, no
  \<^verbatim>\<open>id\<close> column and no column at all.
\<close>

theorem id_column_counterexample:
  "wf_frame \<lparr>columns = [''v''], rows = [[Num 1000000000000000000000000000000]]\<rparr> \<and>
   fst ` set [(''v'', [''remove_nulls''])]
     \<subseteq> set (columns \<lparr>columns = [''v''], rows = [[Num 1000000000000000000000000000000]]\<rparr>) \<and>
   returned (clean_data digits_text frame_shown
      [\<lparr>columns = [''v''], rows = [[Num 1000000000000000000000000000000]]\<rparr>] 0
      [(''v'', [''remove_nulls''])])
     = \<lparr>columns = [], rows = []\<rparr>"
  by (simp add: wf_frame_def clean_data_def clean_try_def frame_shown_def returned_def
      empty_frame_def)

subsection \<open>Rows are only deleted\<close>

text \<open>
  C10. When the \<^verbatim>\<open>try\<close> block ends without an exception, the frame returned,
  apart from its \<^verbatim>\<open>id\<close> column, has the columns of the frame passed in, apart
  from an \<^verbatim>\<open>id\<close> column of its own, and its rows are rows of that frame with
  every cell as it was, in the order they had: the rules delete whole rows and
  do nothing else.
\<close>

theorem clean_data_only_deletes_rows:
  assumes "r < length h" "wf_frame (h ! r)" "clean_try nt sd h r R = Inr e"
  shows "columns (drop_column ''id'' (returned (clean_data nt sd h r R)))
           = columns (drop_column ''id'' (h ! r)) \<and>
         subseq (rows (drop_column ''id'' (returned (clean_data nt sd h r R))))
                (rows (drop_column ''id'' (h ! r)))"
proof -
  from clean_try_success [OF assms(1,3)] obtain e1 :: env and d where
    s: "shrinks (h ! r) (heap e1 ! df e1)" and
    d: "setitem (heap e1 ! df e1) ''id'' (range1 (length (rows (heap e1 ! df e1)))) = Inr d" and
    ret: "returned e = d"
    by auto
  have w1: "wf_frame (heap e1 ! df e1)" using shrinks_wf [OF assms(2) s] .
  from setitem_wf [OF w1, of "range1 (length (rows (heap e1 ! df e1)))" "''id''"] d
  have "drop_column ''id'' d = drop_column ''id'' (heap e1 ! df e1)"
    by (auto simp: length_range1)
  with drop_column_shrinks [OF s, of "''id''"]
  have "shrinks (drop_column ''id'' (h ! r)) (drop_column ''id'' d)" by simp
  moreover from assms(3) ret have "returned (clean_data nt sd h r R) = d"
    by (simp add: clean_data_def)
  ultimately show ?thesis by (simp add: shrinks_def)
qed

theorem clean_data_only_deletes_rows_witness:
  "subseq (rows (drop_column ''id'' (returned (clean_data digits_text frame_shown
      [\<lparr>columns = [''v'', ''w''],
        rows = [[Text ''a'', Num 5], [Null, Num 6], [Text ''b'', Num 7]]\<rparr>] 0
      [(''v'', [''remove_nulls''])]))))
     [[Text ''a'', Num 5], [Null, Num 6], [Text ''b'', Num 7]] \<and>
   rows (drop_column ''id'' (returned (clean_data digits_text frame_shown
      [\<lparr>columns = [''v'', ''w''],
        rows = [[Text ''a'', Num 5], [Null, Num 6], [Text ''b'', Num 7]]\<rparr>] 0
      [(''v'', [''remove_nulls''])])))
     = [[Text ''a'', Num 5], [Text ''b'', Num 7]]"
proof -
  let ?D = "\<lparr>columns = [''v'', ''w''],
        rows = [[Text ''a'', Num 5], [Null, Num 6], [Text ''b'', Num 7]]\<rparr>"
  let ?R = "[(''v'', [''remove_nulls''])]"
  let ?out = "\<lparr>heap = [?D, \<lparr>columns = [''v'', ''w'', ''id''],
        rows = [[Text ''a'', Num 5, Num 1], [Text ''b'', Num 7, Num 2]]\<rparr>], df = 1\<rparr>"
  have a: "(0::nat) < length [?D]" by simp
  have b: "wf_frame ([?D] ! 0)" by (simp add: wf_frame_def)
  have t: "clean_try digits_text frame_shown [?D] 0 ?R = Inr ?out"
    by (simp add: clean_try_def loop_body_def when_in_def rebind_def
      remove_nulls_def getitem_def getitem_mask_def notnull_def
      assign_id_def setitem_def range1_def frame_shown_def)
  have dc: "drop_column ''id'' ?D = ?D" by (simp add: drop_column_def)
  have r: "rows (drop_column ''id'' (returned (clean_data digits_text frame_shown [?D] 0 ?R)))
     = [[Text ''a'', Num 5], [Text ''b'', Num 7]]"
    using t by (simp add: clean_data_def returned_def drop_column_def)
  from clean_data_only_deletes_rows [OF a b t] dc r show ?thesis by simp
qed

end
